theory Spec2Isabelle
  imports Main "HOL-Library.AList"
begin

section \<open>The enemy manager of the tower defence kit (src/td-core/enemy-manager.ts)\<close>

text \<open>
  The class \<open>EnemyManager\<close> keeps a pool of reusable \<open>EnemyUnitObject\<close>s. The objects
  are shared between the list \<open>enemyList\<close> and the dictionary \<open>enemyDict\<close>: both hold
  references to the same objects, \<open>GetEnemyUnit\<close> reads them through the list and
  \<open>ClearUnit\<close> writes them through the dictionary. The embedding therefore has an explicit
  object store \<open>heap\<close>: a reference is a position of the store, \<open>new\<close> appends to it.

  Numbers: the counters and the scroll position are only ever set to 0 and incremented, so
  they are \<open>nat\<close>; the arguments \<open>type\<close>, \<open>wave\<close> and \<open>index\<close> come from the caller and are
  \<open>int\<close>. A dictionary key is \<open>n.toString()\<close>, which is injective on integers: the key is
  modelled by the integer itself.

  Rendering data that no operation below reads (the transform, the health bar shapes, the
  trigger shape, the two callbacks, the always empty \<open>enemyTypeDict\<close>) and the debug
  logging are left out.
\<close>

subsection \<open>Errors and results\<close>

datatype error = OutOfRangeError | NotFoundError

type_synonym GLTFShape = string

type_synonym ref = nat

subsection \<open>The unit object (src/td-core/enemy-entity.ts, not part of the sources at hand)\<close>

text \<open>
  Modelled from the spec: the class \<open>EnemyUnitObject\<close> is missing. The spec gives a unit
  slot the fields \<open>index\<close>, \<open>isAlive\<close>, \<open>type\<close>, \<open>wave\<close> and the methods
  \<open>SetPresence(bool)\<close> (here \<open>SetEngineState\<close>), \<open>Initialize(type, wave)\<close> and
  \<open>TakeDamage(amount)\<close>. \<open>engineState\<close> is the presence in the simulated world, \<open>shape\<close>
  the \<open>GLTFShape\<close> component of the entity (an entity holds at most one component of a
  kind). \<open>removeComponentCalls\<close> and \<open>addComponentCalls\<close> are instrumentation, not program
  state: they count the calls of \<open>removeComponent\<close> and \<open>addComponent\<close> on the entity.
\<close>

record EnemyUnitObject =
  index :: nat
  isAlive :: bool
  type :: int
  wave :: int
  engineState :: bool
  shape :: "GLTFShape option"
  removeComponentCalls :: nat
  addComponentCalls :: nat

text \<open>Modelled from the spec: the constructor of the missing class; a new unit carries its
  index and nothing else.\<close>

definition EnemyUnitObject_new :: "nat \<Rightarrow> EnemyUnitObject" where
  "EnemyUnitObject_new i =
     \<lparr>index = i, isAlive = False, type = 0, wave = 0, engineState = False,
      shape = None, removeComponentCalls = 0, addComponentCalls = 0\<rparr>"

text \<open>Modelled from the spec: \<open>SetPresence(bool)\<close>, enables or disables the unit in the
  simulated world.\<close>

definition SetEngineState :: "bool \<Rightarrow> EnemyUnitObject \<Rightarrow> EnemyUnitObject" where
  "SetEngineState b obj = obj\<lparr>engineState := b\<rparr>"

text \<open>Modelled from the spec: \<open>Initialize(type, wave)\<close> of the missing class: the slot
  takes the type and the wave, and \<open>isAlive\<close> becomes true.\<close>

definition EnemyUnitObject_Initialize :: "int \<Rightarrow> int \<Rightarrow> EnemyUnitObject \<Rightarrow> EnemyUnitObject" where
  "EnemyUnitObject_Initialize t w obj = obj\<lparr>type := t, wave := w, isAlive := True\<rparr>"

text \<open>The component interface of the engine's \<open>Entity\<close>, restricted to \<open>GLTFShape\<close>.\<close>

definition hasComponent :: "EnemyUnitObject \<Rightarrow> bool" where
  "hasComponent obj = (shape obj \<noteq> None)"

definition removeComponent :: "EnemyUnitObject \<Rightarrow> EnemyUnitObject" where
  "removeComponent obj =
     obj\<lparr>shape := None, removeComponentCalls := Suc (removeComponentCalls obj)\<rparr>"

definition addComponent :: "GLTFShape \<Rightarrow> EnemyUnitObject \<Rightarrow> EnemyUnitObject" where
  "addComponent g obj =
     obj\<lparr>shape := Some g, addComponentCalls := Suc (addComponentCalls obj)\<rparr>"

subsection \<open>The collections (src/utilities/collections, not part of the sources at hand)\<close>

text \<open>Modelled from the spec: \<open>List.getItem\<close> and \<open>Dictionary.getItem\<close> of the missing
  collections. A lookup that finds nothing is \<open>None\<close> here; the caller turns it into the
  error the spec names (\<open>OutOfRangeError\<close> for a slot, \<open>NotFoundError\<close> for a model).\<close>

definition List_getItem :: "'a list \<Rightarrow> nat \<Rightarrow> 'a option" where
  "List_getItem xs i = (if i < length xs then Some (xs ! i) else None)"

definition Dictionary_getItem :: "(int \<times> 'v) list \<Rightarrow> int \<Rightarrow> 'v option" where
  "Dictionary_getItem d k = map_of d k"

definition Dictionary_addItem :: "(int \<times> 'v) list \<Rightarrow> int \<Rightarrow> 'v \<Rightarrow> (int \<times> 'v) list" where
  "Dictionary_addItem d k v = AList.update k v d"

subsection \<open>The manager\<close>

record EnemyManager =
  iterationIndex :: nat
  iterationHalt :: nat
  enemySizeMax :: nat
  enemySizeCur :: nat
  enemySizeRemaining :: nat
  enemyList :: "ref list"
  enemyDict :: "(int \<times> ref) list"
  enemyModelDict :: "(int \<times> GLTFShape) list"
  heap :: "EnemyUnitObject list"

text \<open>A call either throws (\<open>Inl\<close>, with the state at the throw: what was written before
  stays written) or returns a value and the new state.\<close>

type_synonym 'a result = "(error \<times> EnemyManager) + ('a \<times> EnemyManager)"

text \<open>The constructor. \<open>EnemyData\<close> (src/td-core/data/enemy-data) is missing: the list of
  its \<open>Path\<close> entries is a parameter.\<close>

definition modelPath :: "string \<Rightarrow> GLTFShape" where
  "modelPath p = ''models/enemy/'' @ p @ ''.glb''"

fun fillModelDict :: "nat \<Rightarrow> string list \<Rightarrow> (int \<times> GLTFShape) list \<Rightarrow> (int \<times> GLTFShape) list" where
  "fillModelDict i [] d = d"
| "fillModelDict i (p # ps) d = fillModelDict (Suc i) ps (Dictionary_addItem d (int i) (modelPath p))"

definition EnemyManager_new :: "string list \<Rightarrow> EnemyManager" where
  "EnemyManager_new EnemyData =
     \<lparr>iterationIndex = 0, iterationHalt = 0, enemySizeMax = 30, enemySizeCur = 0,
      enemySizeRemaining = 0, enemyList = [], enemyDict = [],
      enemyModelDict = fillModelDict 0 EnemyData [], heap = []\<rparr>"

text \<open>\<open>AddEnemyUnit\<close>: the new object gets the list's size as its index and is added to
  the list and, under its index, to the dictionary.\<close>

definition AddEnemyUnit :: "EnemyManager \<Rightarrow> EnemyManager" where
  "AddEnemyUnit s =
     (let i = length (enemyList s);
          obj = EnemyUnitObject_new i;
          a = length (heap s)
      in s\<lparr>heap := heap s @ [obj],
            enemyList := enemyList s @ [a],
            enemyDict := Dictionary_addItem (enemyDict s) (int (index obj)) a\<rparr>)"

text \<open>\<open>ClearUnit\<close>: two lookups in the dictionary, as in the source.\<close>

definition ClearUnit :: "int \<Rightarrow> EnemyManager \<Rightarrow> unit result" where
  "ClearUnit i s =
     (case Dictionary_getItem (enemyDict s) i of
        None \<Rightarrow> Inl (OutOfRangeError, s)
      | Some a \<Rightarrow>
          let s1 = s\<lparr>heap := (heap s)[a := (heap s ! a)\<lparr>isAlive := False\<rparr>]\<rparr>
          in (case Dictionary_getItem (enemyDict s1) i of
                None \<Rightarrow> Inl (OutOfRangeError, s1)
              | Some b \<Rightarrow>
                  Inr ((), s1\<lparr>heap := (heap s1)[b := SetEngineState False (heap s1 ! b)]\<rparr>)))"

text \<open>\<open>DamageUnit\<close>. \<open>TakeDamage\<close> belongs to the missing unit class and is a parameter:
  what the unit does with the amount.\<close>

definition DamageUnit ::
  "('d \<Rightarrow> EnemyUnitObject \<Rightarrow> EnemyUnitObject) \<Rightarrow> int \<Rightarrow> 'd \<Rightarrow> EnemyManager \<Rightarrow> unit result" where
  "DamageUnit TakeDamage i damage s =
     (case Dictionary_getItem (enemyDict s) i of
        None \<Rightarrow> Inl (OutOfRangeError, s)
      | Some a \<Rightarrow> Inr ((), s\<lparr>heap := (heap s)[a := TakeDamage damage (heap s ! a)]\<rparr>))"

text \<open>The increment with wrap-around that \<open>GetEnemyUnit\<close> performs twice:
  \<open>iterationIndex++; if (iterationIndex >= enemyList.size()) iterationIndex = 0\<close>.\<close>

definition pushNextIndex :: "EnemyManager \<Rightarrow> EnemyManager" where
  "pushNextIndex s =
     (let s1 = s\<lparr>iterationIndex := Suc (iterationIndex s)\<rparr>
      in if iterationIndex s1 \<ge> length (enemyList s1) then s1\<lparr>iterationIndex := 0\<rparr> else s1)"

text \<open>The \<open>while (true)\<close> of \<open>GetEnemyUnit\<close>. Nothing in the loop bounds the number of
  rounds, so the loop is a partial function: \<open>None\<close> is a run that never returns.\<close>

partial_function (option) GetEnemyUnit_loop :: "EnemyManager \<Rightarrow> (ref option) result option" where
  "GetEnemyUnit_loop s =
     (case List_getItem (enemyList s) (iterationIndex s) of
        None \<Rightarrow> Some (Inl (OutOfRangeError, s))
      | Some a \<Rightarrow>
          if \<not> isAlive (heap s ! a) then Some (Inr (Some a, s))
          else if iterationIndex s = iterationHalt s then Some (Inr (None, s))
          else GetEnemyUnit_loop (pushNextIndex s))"

definition GetEnemyUnit :: "EnemyManager \<Rightarrow> (ref option) result option" where
  "GetEnemyUnit s = GetEnemyUnit_loop (pushNextIndex (s\<lparr>iterationHalt := iterationIndex s\<rparr>))"

text \<open>\<open>AssignEnemyUnit\<close>. The lookup of the model throws \<open>NotFoundError\<close> for a type without
  a model (the spec's resource cache); by then the unit is disabled and its old shape
  removed.\<close>

definition AssignEnemyUnit_finish :: "ref \<Rightarrow> int \<Rightarrow> int \<Rightarrow> EnemyUnitObject \<Rightarrow> EnemyManager \<Rightarrow> (ref option) result" where
  "AssignEnemyUnit_finish a t w obj s =
     Inr (Some a, s\<lparr>heap := (heap s)[a := EnemyUnitObject_Initialize t w obj],
                    enemySizeCur := Suc (enemySizeCur s)\<rparr>)"

definition AssignEnemyUnit :: "int \<Rightarrow> int \<Rightarrow> EnemyManager \<Rightarrow> (ref option) result option" where
  "AssignEnemyUnit t w s =
     (case GetEnemyUnit s of
        None \<Rightarrow> None
      | Some (Inl e) \<Rightarrow> Some (Inl e)
      | Some (Inr (None, s1)) \<Rightarrow> Some (Inr (None, s1))
      | Some (Inr (Some a, s1)) \<Rightarrow>
          let o1 = SetEngineState False (heap s1 ! a);
              o2 = (if hasComponent o1 then (if type o1 \<noteq> t then removeComponent o1 else o1) else o1)
          in if \<not> hasComponent o2
             then (case Dictionary_getItem (enemyModelDict s1) t of
                     None \<Rightarrow> Some (Inl (NotFoundError, s1\<lparr>heap := (heap s1)[a := o2]\<rparr>))
                   | Some g \<Rightarrow> Some (AssignEnemyUnit_finish a t w (addComponent g o2) s1))
             else Some (AssignEnemyUnit_finish a t w o2 s1))"

text \<open>\<open>ClearUnits\<close>: the \<open>for\<close> loop reads the size in every round.\<close>

function ClearUnits_loop :: "nat \<Rightarrow> EnemyManager \<Rightarrow> unit result" where
  "ClearUnits_loop i s =
     (if i < length (enemyList s)
      then (case ClearUnit (int i) s of
              Inl e \<Rightarrow> Inl e
            | Inr (u, s') \<Rightarrow> ClearUnits_loop (Suc i) s')
      else Inr ((), s))"
  by pat_completeness auto
termination
  by (relation "measure (\<lambda>(i, s). length (enemyList s) - i)")
     (auto simp: ClearUnit_def Let_def split: option.splits)

definition ClearUnits :: "EnemyManager \<Rightarrow> unit result" where
  "ClearUnits s =
     (case ClearUnits_loop 0 s of
        Inl e \<Rightarrow> Inl e
      | Inr (u, s') \<Rightarrow> Inr ((), s'\<lparr>enemySizeCur := 0, enemySizeRemaining := 0\<rparr>))"

text \<open>\<open>Initialize\<close>: the pre-warm loop adds units while the list is shorter than
  \<open>enemySizeMax\<close>, then every unit is cleared.\<close>

function Initialize_loop :: "EnemyManager \<Rightarrow> EnemyManager" where
  "Initialize_loop s =
     (if length (enemyList s) < enemySizeMax s then Initialize_loop (AddEnemyUnit s) else s)"
  by pat_completeness auto
termination
  by (relation "measure (\<lambda>s. enemySizeMax s - length (enemyList s))")
     (auto simp: AddEnemyUnit_def Let_def)

definition Initialize :: "EnemyManager \<Rightarrow> unit result" where
  "Initialize s = ClearUnits (Initialize_loop s)"

subsection \<open>Notions the properties are stated with\<close>

text \<open>Slot \<open>j\<close> is the \<open>j\<close>-th entry of \<open>enemyList\<close>; \<open>slotAlive\<close> reads its flag through
  the list, as \<open>GetEnemyUnit\<close> does, and \<open>aliveCount\<close> counts the slots that are alive.\<close>

definition slotAlive :: "EnemyManager \<Rightarrow> nat \<Rightarrow> bool" where
  "slotAlive s j = isAlive (heap s ! (enemyList s ! j))"

definition aliveCount :: "EnemyManager \<Rightarrow> nat" where
  "aliveCount s = length (filter (slotAlive s) [0..<length (enemyList s)])"

text \<open>The states the manager can be in: the \<open>k\<close>-th unit created is the \<open>k\<close>-th entry of
  the list, is registered under the key \<open>k\<close> and carries the index \<open>k\<close>; the scroll
  position is a position of the list (or 0, before the first unit exists).\<close>

definition pool_inv :: "EnemyManager \<Rightarrow> bool" where
  "pool_inv s =
     (enemyList s = [0..<length (heap s)] \<and>
      enemyDict s = map (\<lambda>a. (int a, a)) [0..<length (heap s)] \<and>
      map index (heap s) = [0..<length (heap s)] \<and>
      (iterationIndex s = 0 \<or> iterationIndex s < length (enemyList s)))"

text \<open>What \<open>ClearUnit\<close> leaves of a unit.\<close>

definition cleared :: "EnemyUnitObject \<Rightarrow> EnemyUnitObject" where
  "cleared obj = obj\<lparr>isAlive := False, engineState := False\<rparr>"

text \<open>A run of \<open>AssignEnemyUnit\<close> calls, one per pair of type and wave, collecting what
  each call returns; a throw ends the run.\<close>

fun AssignEnemyUnits :: "(int \<times> int) list \<Rightarrow> EnemyManager \<Rightarrow> (ref option list) result option" where
  "AssignEnemyUnits [] s = Some (Inr ([], s))"
| "AssignEnemyUnits (tw # tws) s =
     (case AssignEnemyUnit (fst tw) (snd tw) s of
        None \<Rightarrow> None
      | Some (Inl e) \<Rightarrow> Some (Inl e)
      | Some (Inr (r, s1)) \<Rightarrow>
          (case AssignEnemyUnits tws s1 of
             None \<Rightarrow> None
           | Some (Inl e) \<Rightarrow> Some (Inl e)
           | Some (Inr (rs, s2)) \<Rightarrow> Some (Inr (r # rs, s2))))"

text \<open>What lines 166 to 186 of \<open>AssignEnemyUnit\<close> make of the unit they are given, when
  the models are \<open>models\<close>: the unit is disabled; with a shape of the requested type it
  keeps the shape, otherwise the model is looked up (\<open>None\<close>: there is none), an old
  shape is removed and the model is added; then the unit is initialised.\<close>

definition reassigned :: "(int \<times> GLTFShape) list \<Rightarrow> int \<Rightarrow> int \<Rightarrow> EnemyUnitObject \<Rightarrow> EnemyUnitObject option" where
  "reassigned models t w obj =
     (let o1 = SetEngineState False obj
      in if shape obj \<noteq> None \<and> type obj = t
         then Some (EnemyUnitObject_Initialize t w o1)
         else (case Dictionary_getItem models t of
                 None \<Rightarrow> None
               | Some g \<Rightarrow>
                   Some (EnemyUnitObject_Initialize t w
                     (addComponent g (if shape obj \<noteq> None then removeComponent o1 else o1)))))"

subsection \<open>The free-slot finder as the specification words it\<close>

text \<open>
  \<open>FindFree\<close> follows the specification's five steps, on the alive flags of the slots and
  the persistent cursor; it returns the index found (or \<open>None\<close> for NONE) and the cursor.
  Step 2 advances the cursor and records \<open>halt\<close> as the advanced cursor.
\<close>

partial_function (option) FindFree_repeat :: "bool list \<Rightarrow> nat \<Rightarrow> nat \<Rightarrow> (nat option \<times> nat) option" where
  "FindFree_repeat alive cursor halt =
     (if \<not> alive ! cursor then Some (Some cursor, cursor)
      else if cursor = halt then Some (None, cursor)
      else FindFree_repeat alive ((cursor + 1) mod length alive) halt)"

definition FindFree :: "bool list \<Rightarrow> nat \<Rightarrow> (nat option \<times> nat) option" where
  "FindFree alive cursor =
     (let capacity = length alive
      in if capacity = 0 then Some (None, cursor)
         else let cursor1 = (cursor + 1) mod capacity;
                  halt = cursor1
              in FindFree_repeat alive cursor1 halt)"

definition aliveFlags :: "EnemyManager \<Rightarrow> bool list" where
  "aliveFlags s = map (slotAlive s) [0..<length (enemyList s)]"

text \<open>What a scan over the positions \<open>js\<close> that ends at position \<open>h\<close> returns: the first
  slot of \<open>js\<close> that is not alive, the scroll position left on it; or nothing, the scroll
  position left on \<open>h\<close>.\<close>

definition scanResult :: "EnemyManager \<Rightarrow> nat list \<Rightarrow> nat \<Rightarrow> (ref option) result option" where
  "scanResult s js h =
     Some (Inr (case List.find (\<lambda>j. \<not> slotAlive s j) js of
                  None \<Rightarrow> (None, s\<lparr>iterationIndex := h\<rparr>)
                | Some j \<Rightarrow> (Some (enemyList s ! j), s\<lparr>iterationIndex := j\<rparr>)))"

text \<open>What every return of the loop satisfies, whatever the state it starts in: only the
  scroll position has changed, and a unit returned is not alive and is the entry of the
  list at the scroll position.\<close>

definition loop_post :: "EnemyManager \<Rightarrow> (ref option) result \<Rightarrow> bool" where
  "loop_post s r =
     (case r of
        Inl (e, s') \<Rightarrow> s' = s\<lparr>iterationIndex := iterationIndex s'\<rparr>
      | Inr (v, s') \<Rightarrow> s' = s\<lparr>iterationIndex := iterationIndex s'\<rparr> \<and>
          (case v of None \<Rightarrow> True
           | Some a \<Rightarrow> \<not> isAlive (heap s' ! a) \<and>
               List_getItem (enemyList s') (iterationIndex s') = Some a))"

text \<open>The value a call returns, if it returns: \<open>None\<close> for a call that throws or never
  returns.\<close>

definition returnedValue :: "'a result option \<Rightarrow> 'a option" where
  "returnedValue r = (case r of Some (Inr (v, s)) \<Rightarrow> Some v | _ \<Rightarrow> None)"

text \<open>The state a call leaves, whether it returns or throws.\<close>

definition resultState :: "'a result \<Rightarrow> EnemyManager" where
  "resultState r = (case r of Inl (e, s) \<Rightarrow> s | Inr (v, s) \<Rightarrow> s)"

subsection \<open>Example pools\<close>

text \<open>A manager for two enemy types whose pool is limited to two units, \<open>new2\<close>, and the
  state \<open>pool2\<close> it is in after \<open>Initialize()\<close>, two calls \<open>AssignEnemyUnit(0, 1)\<close> and
  \<open>ClearUnit(0)\<close>: unit 0 is free, unit 1 is alive, the scroll position is 0.\<close>

definition new2 :: EnemyManager where
  "new2 = (EnemyManager_new [''a'', ''b''])\<lparr>enemySizeMax := 2\<rparr>"

definition pool2 :: EnemyManager where
  "pool2 =
     \<lparr>iterationIndex = 0, iterationHalt = 1, enemySizeMax = 2, enemySizeCur = 2,
      enemySizeRemaining = 0, enemyList = [0, 1], enemyDict = [(0, 0), (1, 1)],
      enemyModelDict = [(0, ''models/enemy/a.glb''), (1, ''models/enemy/b.glb'')],
      heap = [\<lparr>index = 0, isAlive = False, type = 0, wave = 1, engineState = False,
                shape = Some ''models/enemy/a.glb'', removeComponentCalls = 0,
                addComponentCalls = 1\<rparr>,
              \<lparr>index = 1, isAlive = True, type = 0, wave = 1, engineState = False,
                shape = Some ''models/enemy/a.glb'', removeComponentCalls = 0,
                addComponentCalls = 1\<rparr>]\<rparr>"

text \<open>A unit for the examples of \<open>DamageUnit\<close>: any positive damage kills it.\<close>

definition frailTakeDamage :: "int \<Rightarrow> EnemyUnitObject \<Rightarrow> EnemyUnitObject" where
  "frailTakeDamage d obj = (if 0 < d then obj\<lparr>isAlive := False\<rparr> else obj)"

text \<open>\<open>pool2\<close> before the call \<open>ClearUnit(0)\<close>: both units are alive.\<close>

definition full2 :: EnemyManager where
  "full2 = pool2\<lparr>heap := (heap pool2)[0 := (heap pool2 ! 0)\<lparr>isAlive := True\<rparr>]\<rparr>"

text \<open>The pool of a new manager after \<open>Initialize()\<close>: thirty units, none alive.\<close>

definition freshPool :: "string list \<Rightarrow> EnemyManager" where
  "freshPool d =
     (EnemyManager_new d)
       \<lparr>enemyList := [0..<30],
        enemyDict := map (\<lambda>a. (int a, a)) [0..<30],
        heap := map EnemyUnitObject_new [0..<30]\<rparr>"

text \<open>The pool of a new manager with one enemy type after \<open>Initialize()\<close> and
  \<open>AssignEnemyUnit(0, 1)\<close>, which returns unit 1, and after \<open>ClearUnit(1)\<close> on top.\<close>

definition spawned :: EnemyManager where
  "spawned =
     (freshPool [''a''])
       \<lparr>iterationIndex := 1,
        heap := (heap (freshPool [''a'']))
          [1 := \<lparr>index = 1, isAlive = True, type = 0, wave = 1, engineState = False,
                  shape = Some ''models/enemy/a.glb'', removeComponentCalls = 0,
                  addComponentCalls = 1\<rparr>],
        enemySizeCur := 1\<rparr>"

definition spawned_cleared :: EnemyManager where
  "spawned_cleared =
     spawned\<lparr>heap := (heap spawned)[1 := (heap spawned ! 1)\<lparr>isAlive := False\<rparr>]\<rparr>"

text \<open>\<open>new2\<close> after \<open>Initialize()\<close>: two units, none alive.\<close>

definition fresh2 :: EnemyManager where
  "fresh2 =
     \<lparr>iterationIndex = 0, iterationHalt = 0, enemySizeMax = 2, enemySizeCur = 0,
      enemySizeRemaining = 0, enemyList = [0, 1], enemyDict = [(0, 0), (1, 1)],
      enemyModelDict = [(0, ''models/enemy/a.glb''), (1, ''models/enemy/b.glb'')],
      heap = [EnemyUnitObject_new 0, EnemyUnitObject_new 1]\<rparr>"

text \<open>A pool limited to one unit: the manager for two enemy types with \<open>enemySizeMax\<close>
  set to 1, after \<open>Initialize()\<close>, with \<open>obj\<close> for its unit and \<open>n\<close> for the counter.
  \<open>unit0\<close> is a unit of index 0 that has a shape.\<close>

definition pool1 :: "EnemyUnitObject \<Rightarrow> nat \<Rightarrow> EnemyManager" where
  "pool1 obj n =
     \<lparr>iterationIndex = 0, iterationHalt = 0, enemySizeMax = 1, enemySizeCur = n,
      enemySizeRemaining = 0, enemyList = [0], enemyDict = [(0, 0)],
      enemyModelDict = [(0, ''models/enemy/a.glb''), (1, ''models/enemy/b.glb'')],
      heap = [obj]\<rparr>"

definition unit0 :: "bool \<Rightarrow> int \<Rightarrow> int \<Rightarrow> GLTFShape \<Rightarrow> nat \<Rightarrow> nat \<Rightarrow> EnemyUnitObject" where
  "unit0 alive t w g r a =
     \<lparr>index = 0, isAlive = alive, type = t, wave = w, engineState = False,
      shape = Some g, removeComponentCalls = r, addComponentCalls = a\<rparr>"

declare GetEnemyUnit_loop.simps [code]

declare FindFree_repeat.simps [code]

declare ClearUnits_loop.simps [simp del]

declare Initialize_loop.simps [simp del]

section \<open>Auxiliary facts\<close>

subsection \<open>Dictionaries and lists\<close>

lemma dict_lookup:
  "map_of (map (\<lambda>a. (int a, a)) [0..<n]) k = (if 0 \<le> k \<and> k < int n then Some (nat k) else None)"
proof (induction n)
  case 0
  show ?case by simp
next
  case (Suc n)
  show ?case
  proof (cases "k = int n")
    case True
    then show ?thesis using Suc by (simp add: map_of_append map_add_def)
  next
    case False
    then show ?thesis using Suc by (auto simp: map_of_append map_add_def split: option.splits)
  qed
qed

lemma update_fresh:
  "k \<notin> fst ` set d \<Longrightarrow> AList.update k v d = d @ [(k, v)]"
  by (induction d) auto

lemma dict_add:
  "Dictionary_addItem (map (\<lambda>a. (int a, a)) [0..<n]) (int n) n = map (\<lambda>a. (int a, a)) [0..<Suc n]"
  by (simp add: Dictionary_addItem_def update_fresh image_iff)

lemma pushNextIndex_simps:
  "Suc (iterationIndex s) < length (enemyList s) \<Longrightarrow> pushNextIndex s = s\<lparr>iterationIndex := Suc (iterationIndex s)\<rparr>"
  "\<not> Suc (iterationIndex s) < length (enemyList s) \<Longrightarrow> pushNextIndex s = s\<lparr>iterationIndex := 0\<rparr>"
  by (simp_all add: pushNextIndex_def Let_def)

lemma slotAlive_index_upd [simp]:
  "slotAlive (s\<lparr>iterationIndex := i\<rparr>) = slotAlive s"
  "slotAlive (s\<lparr>iterationHalt := i\<rparr>) = slotAlive s"
  by (simp_all add: slotAlive_def fun_eq_iff)

lemma scanResult_index_upd:
  "scanResult (s\<lparr>iterationIndex := i\<rparr>) js h = scanResult s js h"
  by (simp add: scanResult_def split: option.splits)

lemma scanResult_Cons:
  "slotAlive s i \<Longrightarrow> scanResult s (i # js) h = scanResult s js h"
  "\<not> slotAlive s i \<Longrightarrow> scanResult s (i # js) h = Some (Inr (Some (enemyList s ! i), s\<lparr>iterationIndex := i\<rparr>))"
  by (simp_all add: scanResult_def)

lemma scanResult_Nil:
  "scanResult s [] h = Some (Inr (None, s\<lparr>iterationIndex := h\<rparr>))"
  by (simp add: scanResult_def)

lemma loop_up:
  "iterationIndex s \<le> iterationHalt s \<Longrightarrow> iterationHalt s < length (enemyList s) \<Longrightarrow>
   GetEnemyUnit_loop s = scanResult s [iterationIndex s..<Suc (iterationHalt s)] (iterationHalt s)"
proof (induction "iterationHalt s - iterationIndex s" arbitrary: s)
  case 0
  then have eq: "iterationIndex s = iterationHalt s" by simp
  show ?case
    using 0 eq
    by (subst GetEnemyUnit_loop.simps)
       (simp add: List_getItem_def scanResult_Cons scanResult_Nil slotAlive_def [symmetric])
next
  case (Suc d)
  then have lt: "iterationIndex s < iterationHalt s" by simp
  let ?s' = "s\<lparr>iterationIndex := Suc (iterationIndex s)\<rparr>"
  have push: "pushNextIndex s = ?s'"
    using lt Suc.prems by (simp add: pushNextIndex_simps)
  have IH: "GetEnemyUnit_loop ?s' = scanResult ?s' [iterationIndex ?s'..<Suc (iterationHalt ?s')] (iterationHalt ?s')"
    using Suc.hyps(2) Suc.prems lt by (intro Suc.hyps(1)) auto
  have upt: "[iterationIndex s..<Suc (iterationHalt s)] = iterationIndex s # [Suc (iterationIndex s)..<Suc (iterationHalt s)]"
    using lt by (simp add: upt_conv_Cons)
  show ?case
  proof (cases "slotAlive s (iterationIndex s)")
    case True
    then show ?thesis
      using lt Suc.prems IH push
      by (subst GetEnemyUnit_loop.simps)
         (simp add: List_getItem_def upt scanResult_Cons scanResult_index_upd slotAlive_def [symmetric] del: upt_Suc)
  next
    case False
    then show ?thesis
      using lt Suc.prems
      by (subst GetEnemyUnit_loop.simps)
         (simp add: List_getItem_def upt scanResult_Cons scanResult_index_upd slotAlive_def [symmetric] del: upt_Suc)
  qed
qed

lemma loop_around:
  "iterationHalt s < iterationIndex s \<Longrightarrow> iterationIndex s < length (enemyList s) \<Longrightarrow>
   GetEnemyUnit_loop s =
     scanResult s ([iterationIndex s..<length (enemyList s)] @ [0..<Suc (iterationHalt s)]) (iterationHalt s)"
proof (induction "length (enemyList s) - iterationIndex s" arbitrary: s)
  case 0
  then show ?case by simp
next
  case (Suc d)
  let ?i = "iterationIndex s" and ?n = "length (enemyList s)" and ?h = "iterationHalt s"
  have upt: "[?i..<?n] = ?i # [Suc ?i..<?n]"
    using Suc.prems by (simp add: upt_conv_Cons)
  show ?case
  proof (cases "slotAlive s ?i")
    case False
    then show ?thesis
      using Suc.prems
      by (subst GetEnemyUnit_loop.simps)
         (simp add: List_getItem_def upt scanResult_Cons scanResult_index_upd slotAlive_def [symmetric] del: upt_Suc)
  next
    case True
    show ?thesis
    proof (cases "Suc ?i < ?n")
      case lt: True
      let ?s' = "s\<lparr>iterationIndex := Suc ?i\<rparr>"
      have push: "pushNextIndex s = ?s'" using lt by (simp add: pushNextIndex_simps)
      have IH: "GetEnemyUnit_loop ?s' =
          scanResult ?s' ([iterationIndex ?s'..<length (enemyList ?s')] @ [0..<Suc (iterationHalt ?s')]) (iterationHalt ?s')"
        using Suc.hyps(2) Suc.prems lt by (intro Suc.hyps(1)) auto
      show ?thesis
        using True Suc.prems IH push
        by (subst GetEnemyUnit_loop.simps)
           (simp add: List_getItem_def upt scanResult_Cons scanResult_index_upd slotAlive_def [symmetric] del: upt_Suc)
    next
      case ge: False
      let ?s' = "s\<lparr>iterationIndex := 0\<rparr>"
      have push: "pushNextIndex s = ?s'" using ge by (simp add: pushNextIndex_simps)
      have L: "GetEnemyUnit_loop ?s' = scanResult ?s' [iterationIndex ?s'..<Suc (iterationHalt ?s')] (iterationHalt ?s')"
        using Suc.prems by (intro loop_up) auto
      have e: "[Suc ?i..<?n] = []" using ge by simp
      show ?thesis
        using True Suc.prems L push
        by (subst GetEnemyUnit_loop.simps)
           (simp add: List_getItem_def upt e scanResult_Cons scanResult_index_upd slotAlive_def [symmetric] del: upt_Suc)
    qed
  qed
qed

subsection \<open>The scan of \<open>GetEnemyUnit\<close>\<close>

lemma loop_post_push:
  "loop_post (pushNextIndex s) r \<Longrightarrow> loop_post s r"
  by (auto simp: loop_post_def pushNextIndex_def Let_def split: sum.splits prod.splits if_splits option.splits)

lemma loop_frame:
  assumes "GetEnemyUnit_loop s = Some r"
  shows "loop_post s r"
proof (rule GetEnemyUnit_loop.raw_induct [of loop_post, OF _ assms])
  fix loop :: "EnemyManager \<Rightarrow> (ref option) result option" and s r
  assume IH: "\<And>x y. loop x = Some y \<Longrightarrow> loop_post x y"
  assume eq: "(case List_getItem (enemyList s) (iterationIndex s) of
      None \<Rightarrow> Some (Inl (OutOfRangeError, s))
      | Some a \<Rightarrow>
          if \<not> isAlive (heap s ! a) then Some (Inr (Some a, s))
          else if iterationIndex s = iterationHalt s
               then Some (Inr (None, s))
               else loop (pushNextIndex s)) = Some r"
  show "loop_post s r"
  proof (cases "List_getItem (enemyList s) (iterationIndex s)")
    case None
    with eq show ?thesis by (auto simp: loop_post_def)
  next
    case (Some a)
    show ?thesis
    proof (cases "\<not> isAlive (heap s ! a)")
      case True
      with Some eq show ?thesis by (auto simp: loop_post_def)
    next
      case alive: False
      show ?thesis
      proof (cases "iterationIndex s = iterationHalt s")
        case True
        with Some alive eq show ?thesis by (auto simp: loop_post_def)
      next
        case False
        with Some alive eq have "loop (pushNextIndex s) = Some r" by simp
        from IH [OF this] show ?thesis by (rule loop_post_push)
      qed
    qed
  qed
qed

lemma GetEnemyUnit_scan:
  assumes "iterationIndex s < length (enemyList s)"
  shows "GetEnemyUnit s =
     Some (Inr (case List.find (\<lambda>j. \<not> slotAlive s j)
                       ([Suc (iterationIndex s)..<length (enemyList s)] @ [0..<Suc (iterationIndex s)]) of
                  None \<Rightarrow> (None, s\<lparr>iterationHalt := iterationIndex s\<rparr>)
                | Some j \<Rightarrow> (Some (enemyList s ! j), s\<lparr>iterationHalt := iterationIndex s, iterationIndex := j\<rparr>)))"
proof -
  let ?c = "iterationIndex s" and ?n = "length (enemyList s)"
  let ?s0 = "s\<lparr>iterationHalt := ?c\<rparr>"
  show ?thesis
  proof (cases "Suc ?c < ?n")
    case True
    then have push: "pushNextIndex ?s0 = ?s0\<lparr>iterationIndex := Suc ?c\<rparr>"
      by (simp add: pushNextIndex_simps)
    have "GetEnemyUnit_loop (?s0\<lparr>iterationIndex := Suc ?c\<rparr>) =
        scanResult (?s0\<lparr>iterationIndex := Suc ?c\<rparr>) ([Suc ?c..<?n] @ [0..<Suc ?c]) ?c"
      using True loop_around [of "?s0\<lparr>iterationIndex := Suc ?c\<rparr>"] by simp
    then show ?thesis
      by (simp add: GetEnemyUnit_def push scanResult_def split: option.splits)
  next
    case False
    then have push: "pushNextIndex ?s0 = ?s0\<lparr>iterationIndex := 0\<rparr>"
      by (simp add: pushNextIndex_simps)
    have e: "[Suc ?c..<?n] = []" using False by simp
    have "GetEnemyUnit_loop (?s0\<lparr>iterationIndex := 0\<rparr>) =
        scanResult (?s0\<lparr>iterationIndex := 0\<rparr>) [0..<Suc ?c] ?c"
      using assms loop_up [of "?s0\<lparr>iterationIndex := 0\<rparr>"] by simp
    then show ?thesis
      by (simp add: GetEnemyUnit_def push e scanResult_def split: option.splits del: upt_Suc)
  qed
qed

text \<open>With a single slot the scan looks at it once and returns: the slot when it is
  free, nothing when it is alive.\<close>

lemma GetEnemyUnit_capacity_one:
  assumes "length (enemyList s) = 1" "iterationIndex s = 0"
  shows "GetEnemyUnit s =
     Some (Inr (if slotAlive s 0 then (None, s\<lparr>iterationHalt := 0\<rparr>)
                else (Some (enemyList s ! 0), s\<lparr>iterationHalt := 0, iterationIndex := 0\<rparr>)))"
proof -
  have c: "iterationIndex s < length (enemyList s)"
    using assms by simp
  show ?thesis
    using GetEnemyUnit_scan [OF c] assms by simp
qed

subsection \<open>The invariant, \<open>ClearUnit\<close> and \<open>Initialize\<close>\<close>

lemma pool_inv_length: "pool_inv s \<Longrightarrow> length (enemyList s) = length (heap s)"
  by (simp add: pool_inv_def)

lemma pool_inv_nth: "pool_inv s \<Longrightarrow> j < length (heap s) \<Longrightarrow> enemyList s ! j = j"
  by (simp add: pool_inv_def)

lemma pool_inv_slotAlive:
  "pool_inv s \<Longrightarrow> j < length (heap s) \<Longrightarrow> slotAlive s j = isAlive (heap s ! j)"
  by (simp add: slotAlive_def pool_inv_nth)

lemma pool_inv_dict:
  "pool_inv s \<Longrightarrow>
   Dictionary_getItem (enemyDict s) k =
     (if 0 \<le> k \<and> k < int (length (heap s)) then Some (nat k) else None)"
  by (simp add: pool_inv_def Dictionary_getItem_def dict_lookup)

lemma pool_inv_cursor:
  "pool_inv s \<Longrightarrow> 0 < length (enemyList s) \<Longrightarrow> iterationIndex s < length (enemyList s)"
  by (auto simp: pool_inv_def)

lemma map_index_update:
  "map index xs = [0..<length xs] \<Longrightarrow> a < length xs \<Longrightarrow> index obj = index (xs ! a) \<Longrightarrow>
   map index (xs[a := obj]) = [0..<length xs]"
  by (metis length_list_update list_update_id map_update nth_map)

lemma pool_inv_heap_update:
  "pool_inv s \<Longrightarrow> a < length (heap s) \<Longrightarrow> index obj = index (heap s ! a) \<Longrightarrow>
   pool_inv (s\<lparr>heap := (heap s)[a := obj]\<rparr>)"
  by (auto simp: pool_inv_def map_index_update)

lemma ClearUnit_valid:
  assumes "pool_inv s" "0 \<le> i" "i < int (length (heap s))"
  shows "ClearUnit i s = Inr ((), s\<lparr>heap := (heap s)[nat i := cleared (heap s ! nat i)]\<rparr>)"
proof -
  let ?s1 = "s\<lparr>heap := (heap s)[nat i := (heap s ! nat i)\<lparr>isAlive := False\<rparr>]\<rparr>"
  have d: "Dictionary_getItem (enemyDict s) i = Some (nat i)"
    using assms by (simp add: pool_inv_dict)
  have d1: "Dictionary_getItem (enemyDict ?s1) i = Some (nat i)"
    using d by simp
  show ?thesis
    using assms(2,3) by (simp add: ClearUnit_def d d1 Let_def SetEngineState_def cleared_def)
qed

lemma ClearUnit_invalid:
  assumes "pool_inv s" "\<not> (0 \<le> i \<and> i < int (length (heap s)))"
  shows "ClearUnit i s = Inl (OutOfRangeError, s)"
  using assms by (simp add: ClearUnit_def pool_inv_dict)

lemma cleared_index [simp]: "index (cleared obj) = index obj"
  by (simp add: cleared_def)

lemma ClearUnits_loop_valid:
  assumes "pool_inv s" "i \<le> length (heap s)"
  shows "ClearUnits_loop i s =
     Inr ((), s\<lparr>heap := take i (heap s) @ map cleared (drop i (heap s))\<rparr>)"
  using assms
proof (induction "length (heap s) - i" arbitrary: i s)
  case 0
  then have "i = length (heap s)" by simp
  then show ?case
    using 0 by (subst ClearUnits_loop.simps) (simp add: pool_inv_length)
next
  case (Suc d)
  then have lt: "i < length (heap s)" by simp
  let ?s' = "s\<lparr>heap := (heap s)[i := cleared (heap s ! i)]\<rparr>"
  have c: "ClearUnit (int i) s = Inr ((), ?s')"
    using ClearUnit_valid [of s "int i"] Suc.prems lt by simp
  have inv': "pool_inv ?s'"
    using Suc.prems lt by (simp add: pool_inv_heap_update)
  have IH: "ClearUnits_loop (Suc i) ?s' =
      Inr ((), ?s'\<lparr>heap := take (Suc i) (heap ?s') @ map cleared (drop (Suc i) (heap ?s'))\<rparr>)"
    using Suc.hyps(2) lt inv' by (intro Suc.hyps(1)) auto
  have h: "take (Suc i) ((heap s)[i := cleared (heap s ! i)]) @ map cleared (drop (Suc i) (heap s))
         = take i (heap s) @ map cleared (drop i (heap s))"
    using lt by (simp add: take_Suc_conv_app_nth Cons_nth_drop_Suc [symmetric])
  show ?case
    using lt Suc.prems
    by (subst ClearUnits_loop.simps) (simp add: c IH h pool_inv_length)
qed

lemma ClearUnits_valid:
  assumes "pool_inv s"
  shows "ClearUnits s =
     Inr ((), s\<lparr>heap := map cleared (heap s), enemySizeCur := 0, enemySizeRemaining := 0\<rparr>)"
  using ClearUnits_loop_valid [OF assms, of 0] by (simp add: ClearUnits_def)

lemma pool_inv_AddEnemyUnit:
  "pool_inv s \<Longrightarrow> pool_inv (AddEnemyUnit s)"
  by (auto simp: pool_inv_def AddEnemyUnit_def Let_def dict_add EnemyUnitObject_new_def)

lemma AddEnemyUnit_fields [simp]:
  "length (enemyList (AddEnemyUnit s)) = Suc (length (enemyList s))"
  "enemySizeMax (AddEnemyUnit s) = enemySizeMax s"
  "iterationIndex (AddEnemyUnit s) = iterationIndex s"
  by (simp_all add: AddEnemyUnit_def Let_def)

lemma Initialize_loop_props:
  "pool_inv s \<Longrightarrow>
   pool_inv (Initialize_loop s) \<and>
   length (enemyList (Initialize_loop s)) = max (length (enemyList s)) (enemySizeMax s) \<and>
   enemySizeMax (Initialize_loop s) = enemySizeMax s"
proof (induction s rule: Initialize_loop.induct)
  case (1 s)
  show ?case
  proof (cases "length (enemyList s) < enemySizeMax s")
    case True
    with 1 show ?thesis
      by (subst (1 2 3) Initialize_loop.simps) (auto simp: pool_inv_AddEnemyUnit)
  next
    case False
    with 1 show ?thesis
      by (subst (1 2 3) Initialize_loop.simps) auto
  qed
qed

lemma pool_inv_new: "pool_inv (EnemyManager_new d)"
  by (simp add: pool_inv_def EnemyManager_new_def)

lemma scan_positions:
  "c < n \<Longrightarrow> set ([Suc c..<n] @ [0..<Suc c]) = {0..<n}"
  "distinct ([Suc c..<n] @ [0..<Suc c])"
  by auto

lemma scan_positions_last:
  "c < n \<Longrightarrow> k < length ([Suc c..<n] @ [0..<Suc c]) \<Longrightarrow>
   ([Suc c..<n] @ [0..<Suc c]) ! k = c \<Longrightarrow> k = n - 1"
  by (auto simp: nth_append split: if_splits)

lemma GetEnemyUnit_post:
  assumes "GetEnemyUnit s = Some (Inr (Some a, s'))"
  shows "\<not> isAlive (heap s' ! a)" "iterationIndex s' < length (enemyList s')"
    "enemyList s' ! iterationIndex s' = a" "enemyList s' = enemyList s" "heap s' = heap s"
proof -
  let ?s0 = "pushNextIndex (s\<lparr>iterationHalt := iterationIndex s\<rparr>)"
  have "loop_post ?s0 (Inr (Some a, s'))"
    using assms by (intro loop_frame) (simp add: GetEnemyUnit_def)
  then have p: "s' = ?s0\<lparr>iterationIndex := iterationIndex s'\<rparr>" "\<not> isAlive (heap s' ! a)"
    "List_getItem (enemyList s') (iterationIndex s') = Some a"
    by (simp_all add: loop_post_def)
  show "\<not> isAlive (heap s' ! a)" by (rule p(2))
  show "iterationIndex s' < length (enemyList s')" "enemyList s' ! iterationIndex s' = a"
    using p(3) by (auto simp: List_getItem_def split: if_splits)
  have "enemyList s' = enemyList ?s0" "heap s' = heap ?s0"
    by (subst p(1), simp)+
  then show "enemyList s' = enemyList s" "heap s' = heap s"
    by (simp_all add: pushNextIndex_def Let_def)
qed

lemma AddEnemyUnit_inv:
  "pool_inv s \<Longrightarrow>
   AddEnemyUnit s =
     s\<lparr>heap := heap s @ [EnemyUnitObject_new (length (heap s))],
       enemyList := [0..<Suc (length (heap s))],
       enemyDict := map (\<lambda>a. (int a, a)) [0..<Suc (length (heap s))]\<rparr>"
  by (simp add: AddEnemyUnit_def Let_def pool_inv_def dict_add [simplified] EnemyUnitObject_new_def)

lemma Initialize_loop_exact:
  "pool_inv s \<Longrightarrow>
   Initialize_loop s =
     s\<lparr>heap := heap s @ map EnemyUnitObject_new [length (heap s)..<enemySizeMax s],
       enemyList := [0..<max (length (heap s)) (enemySizeMax s)],
       enemyDict := map (\<lambda>a. (int a, a)) [0..<max (length (heap s)) (enemySizeMax s)]\<rparr>"
proof (induction s rule: Initialize_loop.induct)
  case (1 s)
  show ?case
  proof (cases "length (enemyList s) < enemySizeMax s")
    case True
    then have lt: "length (heap s) < enemySizeMax s"
      using 1(2) by (simp add: pool_inv_length)
    have IH: "Initialize_loop (AddEnemyUnit s) =
      (AddEnemyUnit s)\<lparr>heap := heap (AddEnemyUnit s) @
           map EnemyUnitObject_new [length (heap (AddEnemyUnit s))..<enemySizeMax (AddEnemyUnit s)],
         enemyList := [0..<max (length (heap (AddEnemyUnit s))) (enemySizeMax (AddEnemyUnit s))],
         enemyDict := map (\<lambda>a. (int a, a))
           [0..<max (length (heap (AddEnemyUnit s))) (enemySizeMax (AddEnemyUnit s))]\<rparr>"
      using 1 True by (simp add: pool_inv_AddEnemyUnit)
    have u: "[length (heap s)..<enemySizeMax s] = length (heap s) # [Suc (length (heap s))..<enemySizeMax s]"
      using lt by (simp add: upt_conv_Cons)
    have m: "max (Suc (length (heap s))) (enemySizeMax s) = max (length (heap s)) (enemySizeMax s)"
      using lt by simp
    show ?thesis
      using True
      by (subst Initialize_loop.simps, simp only: IH if_True)
         (simp add: AddEnemyUnit_inv [OF 1(2)] u m del: upt_Suc)
  next
    case False
    then have ge: "enemySizeMax s \<le> length (heap s)"
      using 1(2) by (simp add: pool_inv_length)
    have "s\<lparr>heap := heap s, enemyList := [0..<length (heap s)],
        enemyDict := map (\<lambda>a. (int a, a)) [0..<length (heap s)]\<rparr> = s"
      using 1(2) by (simp add: pool_inv_def)
    then show ?thesis
      using False ge by (subst Initialize_loop.simps) (simp add: max_absorb1)
  qed
qed

lemma cleared_new [simp]: "cleared (EnemyUnitObject_new i) = EnemyUnitObject_new i"
  by (simp add: cleared_def EnemyUnitObject_new_def)

lemma cleared_idem [simp]: "cleared (cleared obj) = cleared obj"
  by (simp add: cleared_def)

lemma Initialize_result:
  assumes "pool_inv s"
  shows "Initialize s =
     Inr ((), s\<lparr>heap := map cleared (heap s) @ map EnemyUnitObject_new [length (heap s)..<enemySizeMax s],
       enemyList := [0..<max (length (heap s)) (enemySizeMax s)],
       enemyDict := map (\<lambda>a. (int a, a)) [0..<max (length (heap s)) (enemySizeMax s)],
       enemySizeCur := 0, enemySizeRemaining := 0\<rparr>)"
proof -
  have "pool_inv (Initialize_loop s)"
    using Initialize_loop_props [OF assms] by simp
  from ClearUnits_valid [OF this] show ?thesis
    by (simp add: Initialize_def Initialize_loop_exact [OF assms])
qed

lemma Initialize_new: "Initialize (EnemyManager_new d) = Inr ((), freshPool d)"
  by (simp add: Initialize_result [OF pool_inv_new] freshPool_def)
     (simp add: EnemyManager_new_def)

lemma pool_inv_freshPool: "pool_inv (freshPool d)"
  by (simp add: pool_inv_def freshPool_def EnemyManager_new_def EnemyUnitObject_new_def comp_def map_upt_eqI)

lemma Initialize_freshPool: "Initialize (freshPool d) = Inr ((), freshPool d)"
  by (simp add: Initialize_result [OF pool_inv_freshPool])
     (simp add: freshPool_def EnemyManager_new_def comp_def)

lemma filter_update_count:
  "i < length xs \<Longrightarrow>
   length (filter P (xs[i := y])) + (if P (xs ! i) then 1 else 0) =
   length (filter P xs) + (if P y then 1 else 0)"
proof (induction xs arbitrary: i)
  case Nil
  then show ?case by simp
next
  case (Cons x xs)
  show ?case
  proof (cases i)
    case 0
    then show ?thesis by simp
  next
    case (Suc k)
    then show ?thesis using Cons.IH [of k] Cons.prems by simp
  qed
qed

lemma aliveCount_heap:
  assumes "pool_inv s"
  shows "aliveCount s = length (filter isAlive (heap s))"
proof -
  have "filter (slotAlive s) [0..<length (heap s)] =
      filter (isAlive \<circ> (!) (heap s)) [0..<length (heap s)]"
    using assms by (intro filter_cong) (simp_all add: pool_inv_slotAlive)
  then have "aliveCount s = length (filter isAlive (map ((!) (heap s)) [0..<length (heap s)]))"
    using assms by (simp add: aliveCount_def pool_inv_length filter_map)
  then show ?thesis by (simp add: map_nth)
qed

lemma fresh_units_free: "filter isAlive (map EnemyUnitObject_new js) = []"
  by (simp add: filter_empty_conv EnemyUnitObject_new_def)

lemma freshPool_fields:
  "iterationIndex (freshPool d) = 0" "length (enemyList (freshPool d)) = 30"
  "enemyList (freshPool d) = [0..<30]" "heap (freshPool d) = map EnemyUnitObject_new [0..<30]"
  "enemySizeCur (freshPool d) = 0"
  by (simp_all add: freshPool_def EnemyManager_new_def)

subsection \<open>\<open>AssignEnemyUnit\<close> and the unit it returns\<close>

lemma ClearUnit_keeps:
  assumes "ClearUnit i s = Inr ((), s')"
  shows "type (heap s' ! a) = type (heap s ! a)" "shape (heap s' ! a) = shape (heap s ! a)"
    "removeComponentCalls (heap s' ! a) = removeComponentCalls (heap s ! a)"
    "addComponentCalls (heap s' ! a) = addComponentCalls (heap s ! a)"
    "length (heap s') = length (heap s)" "enemyModelDict s' = enemyModelDict s"
proof -
  from assms obtain x where
    s': "s' = s\<lparr>heap := (heap s)[x := SetEngineState False
            ((heap s)[x := (heap s ! x)\<lparr>isAlive := False\<rparr>] ! x)]\<rparr>"
    by (auto simp: ClearUnit_def Let_def split: option.splits)
  have *: "\<And>f. (\<And>obj. f (obj\<lparr>isAlive := False\<rparr>) = f obj) \<Longrightarrow>
      (\<And>obj. f (SetEngineState False obj) = f obj) \<Longrightarrow> f (heap s' ! a) = f (heap s ! a)"
    unfolding s'
    by (cases "x < length (heap s)"; cases "a = x")
       (simp_all add: nth_list_update list_update_beyond)
  show "type (heap s' ! a) = type (heap s ! a)" by (rule *) (simp_all add: SetEngineState_def)
  show "shape (heap s' ! a) = shape (heap s ! a)" by (rule *) (simp_all add: SetEngineState_def)
  show "removeComponentCalls (heap s' ! a) = removeComponentCalls (heap s ! a)"
    by (rule *) (simp_all add: SetEngineState_def)
  show "addComponentCalls (heap s' ! a) = addComponentCalls (heap s ! a)"
    by (rule *) (simp_all add: SetEngineState_def)
  show "length (heap s') = length (heap s)" "enemyModelDict s' = enemyModelDict s"
    by (simp_all add: s')
qed

lemma AssignEnemyUnit_found:
  assumes "GetEnemyUnit s = Some (Inr (Some a, s1))"
  shows "AssignEnemyUnit t w s =
     (case reassigned (enemyModelDict s1) t w (heap s1 ! a) of
        None \<Rightarrow> Some (Inl (NotFoundError,
            s1\<lparr>heap := (heap s1)[a :=
              (if shape (heap s1 ! a) \<noteq> None
               then removeComponent (SetEngineState False (heap s1 ! a))
               else SetEngineState False (heap s1 ! a))]\<rparr>))
      | Some obj \<Rightarrow> Some (Inr (Some a,
            s1\<lparr>heap := (heap s1)[a := obj], enemySizeCur := Suc (enemySizeCur s1)\<rparr>)))"
  unfolding AssignEnemyUnit_def assms
  by (auto simp: reassigned_def Let_def hasComponent_def SetEngineState_def removeComponent_def
      addComponent_def AssignEnemyUnit_finish_def
      split: option.splits)

lemma AssignEnemyUnit_returns:
  assumes "AssignEnemyUnit t w s = Some (Inr (Some a, s'))"
  obtains s1 obj where "GetEnemyUnit s = Some (Inr (Some a, s1))"
    "reassigned (enemyModelDict s1) t w (heap s1 ! a) = Some obj"
    "s' = s1\<lparr>heap := (heap s1)[a := obj], enemySizeCur := Suc (enemySizeCur s1)\<rparr>"
proof -
  from assms obtain s1 where g: "GetEnemyUnit s = Some (Inr (Some a, s1))"
    by (auto simp: AssignEnemyUnit_def Let_def AssignEnemyUnit_finish_def
        split: option.splits sum.splits prod.splits if_splits)
  from assms AssignEnemyUnit_found [OF g, of t w] that g show thesis
    by (auto split: option.splits)
qed

lemma GetEnemyUnit_frame:
  assumes "GetEnemyUnit s = Some (Inr (v, s'))"
  shows "s' = s\<lparr>iterationHalt := iterationIndex s, iterationIndex := iterationIndex s'\<rparr>"
proof -
  let ?s0 = "pushNextIndex (s\<lparr>iterationHalt := iterationIndex s\<rparr>)"
  have "loop_post ?s0 (Inr (v, s'))"
    using assms by (intro loop_frame) (simp add: GetEnemyUnit_def)
  then have "s' = ?s0\<lparr>iterationIndex := iterationIndex s'\<rparr>"
    by (simp add: loop_post_def)
  then show ?thesis
    by (simp add: pushNextIndex_def Let_def split: if_splits)
qed

lemma reassigned_fields:
  assumes "reassigned m t w obj = Some obj'"
  shows "type obj' = t" "wave obj' = w" "isAlive obj'" "shape obj' \<noteq> None" "index obj' = index obj"
  using assms
  by (auto simp: reassigned_def Let_def SetEngineState_def EnemyUnitObject_Initialize_def
      addComponent_def removeComponent_def split: if_splits option.splits)

lemma reassigned_same_type:
  assumes "reassigned m t w obj = Some obj'" "shape obj \<noteq> None" "type obj = t"
  shows "removeComponentCalls obj' = removeComponentCalls obj"
    "addComponentCalls obj' = addComponentCalls obj" "shape obj' = shape obj"
  using assms
  by (auto simp: reassigned_def Let_def SetEngineState_def EnemyUnitObject_Initialize_def)

lemma reassigned_other_type:
  assumes "reassigned m t w obj = Some obj'" "shape obj \<noteq> None" "type obj \<noteq> t"
  shows "removeComponentCalls obj' = Suc (removeComponentCalls obj)"
    "addComponentCalls obj' = Suc (addComponentCalls obj)" "shape obj' = Dictionary_getItem m t"
  using assms
  by (auto simp: reassigned_def Let_def SetEngineState_def EnemyUnitObject_Initialize_def
      addComponent_def removeComponent_def split: option.splits)

lemma AssignEnemyUnit_unit:
  assumes "AssignEnemyUnit t w s = Some (Inr (Some a, s'))" "a < length (heap s)"
  shows "reassigned (enemyModelDict s) t w (heap s ! a) = Some (heap s' ! a)"
    "length (heap s') = length (heap s)" "enemyModelDict s' = enemyModelDict s"
    "b \<noteq> a \<Longrightarrow> heap s' ! b = heap s ! b"
proof -
  from AssignEnemyUnit_returns [OF assms(1)] obtain s1 obj where
    g: "GetEnemyUnit s = Some (Inr (Some a, s1))" and
    r: "reassigned (enemyModelDict s1) t w (heap s1 ! a) = Some obj" and
    s': "s' = s1\<lparr>heap := (heap s1)[a := obj], enemySizeCur := Suc (enemySizeCur s1)\<rparr>"
    by blast
  have f: "heap s1 = heap s" "enemyModelDict s1 = enemyModelDict s"
    by (subst GetEnemyUnit_frame [OF g], simp)+
  show "reassigned (enemyModelDict s) t w (heap s ! a) = Some (heap s' ! a)"
    using r assms(2) by (simp add: s' f)
  show "length (heap s') = length (heap s)" "enemyModelDict s' = enemyModelDict s"
    by (simp_all add: s' f)
  show "heap s' ! b = heap s ! b" if "b \<noteq> a"
    using that by (simp add: s' f)
qed

lemma GetEnemyUnit_ref:
  assumes "pool_inv s" "GetEnemyUnit s = Some (Inr (Some a, s1))"
  shows "a < length (heap s)"
proof -
  note p = GetEnemyUnit_post [OF assms(2)]
  have "iterationIndex s1 < length (heap s)"
    using p(2,4) assms(1) by (simp add: pool_inv_length)
  then show ?thesis
    using p(3,4) assms(1) by (simp add: pool_inv_nth)
qed

lemma AssignEnemyUnit_ref:
  assumes "pool_inv s" "AssignEnemyUnit t w s = Some (Inr (Some a, s'))"
  shows "a < length (heap s)"
  using AssignEnemyUnit_returns [OF assms(2)] GetEnemyUnit_ref [OF assms(1)] by blast

lemma free_slot_exists:
  assumes "pool_inv s" "aliveCount s < length (heap s)"
  shows "\<exists>j<length (heap s). \<not> isAlive (heap s ! j)"
proof (rule ccontr)
  assume "\<not> ?thesis"
  then have "\<forall>x\<in>set (heap s). isAlive x"
    by (auto simp: in_set_conv_nth)
  then have "filter isAlive (heap s) = heap s"
    by simp
  then show False
    using assms by (simp add: aliveCount_heap)
qed

lemma all_alive:
  assumes "pool_inv s" "aliveCount s = length (heap s)"
  shows "\<forall>j<length (enemyList s). slotAlive s j"
proof -
  have "length (filter isAlive (heap s)) = length (heap s)"
    using assms by (simp add: aliveCount_heap)
  then have "filter isAlive (heap s) = heap s"
    by (metis length_filter_less less_irrefl filter_True)
  then have "\<forall>x\<in>set (heap s). isAlive x"
    by (metis filter_id_conv)
  then show ?thesis
    using assms(1) by (simp add: pool_inv_length pool_inv_slotAlive)
qed

lemma AssignEnemyUnit_all_alive:
  assumes "iterationIndex s < length (enemyList s)"
    and "\<forall>j<length (enemyList s). slotAlive s j"
  shows "AssignEnemyUnit t w s = Some (Inr (None, s\<lparr>iterationHalt := iterationIndex s\<rparr>))"
proof -
  have "List.find (\<lambda>j. \<not> slotAlive s j)
          ([Suc (iterationIndex s)..<length (enemyList s)] @ [0..<Suc (iterationIndex s)]) = None"
    using assms by (auto simp: find_None_iff)
  then have "GetEnemyUnit s = Some (Inr (None, s\<lparr>iterationHalt := iterationIndex s\<rparr>))"
    using GetEnemyUnit_scan [OF assms(1)] by simp
  then show ?thesis
    by (simp add: AssignEnemyUnit_def)
qed

lemma reassigned_registered:
  "Dictionary_getItem m t \<noteq> None \<Longrightarrow> \<exists>obj'. reassigned m t w obj = Some obj'"
  by (auto simp: reassigned_def Let_def)

lemma AssignEnemyUnit_success:
  assumes "pool_inv s" "j < length (heap s)" "\<not> isAlive (heap s ! j)"
    and "Dictionary_getItem (enemyModelDict s) t \<noteq> None"
  shows "\<exists>a s'. AssignEnemyUnit t w s = Some (Inr (Some a, s')) \<and> pool_inv s' \<and>
    length (heap s') = length (heap s) \<and> aliveCount s' = Suc (aliveCount s) \<and>
    enemyModelDict s' = enemyModelDict s"
proof -
  let ?n = "length (enemyList s)" and ?c = "iterationIndex s"
  let ?js = "[Suc ?c..<?n] @ [0..<Suc ?c]"
  have n: "?n = length (heap s)" using assms(1) by (simp add: pool_inv_length)
  have "0 < ?n" using assms(2) n by (cases "heap s") simp_all
  then have c: "?c < ?n" using assms(1) by (simp add: pool_inv_cursor)
  have "j \<in> set ?js" using assms(2) c n by auto
  moreover have "\<not> slotAlive s j" using assms(1-3) by (simp add: pool_inv_slotAlive)
  ultimately have "List.find (\<lambda>j. \<not> slotAlive s j) ?js \<noteq> None"
    by (auto simp: find_None_iff simp del: upt_Suc set_upt set_append)
  then obtain k where k: "List.find (\<lambda>j. \<not> slotAlive s j) ?js = Some k" by blast
  then have "k \<in> set ?js" "\<not> slotAlive s k"
    by (auto simp: find_Some_iff simp del: upt_Suc set_upt set_append)
  then have kn: "k < length (heap s)" and kf: "\<not> isAlive (heap s ! k)"
    using c n assms(1) by (auto simp: pool_inv_slotAlive)
  let ?s1 = "s\<lparr>iterationHalt := ?c, iterationIndex := k\<rparr>"
  have g: "GetEnemyUnit s = Some (Inr (Some k, ?s1))"
    using GetEnemyUnit_scan [OF c] k kn assms(1) by (simp add: pool_inv_nth del: upt_Suc)
  obtain obj where r: "reassigned (enemyModelDict ?s1) t w (heap ?s1 ! k) = Some obj"
    using reassigned_registered [of "enemyModelDict ?s1" t w "heap ?s1 ! k"] assms(4) by auto
  let ?s' = "?s1\<lparr>heap := (heap ?s1)[k := obj], enemySizeCur := Suc (enemySizeCur ?s1)\<rparr>"
  have a: "AssignEnemyUnit t w s = Some (Inr (Some k, ?s'))"
    using AssignEnemyUnit_found [OF g, of t w] r by simp
  have idx: "index obj = index (heap s ! k)" and alive: "isAlive obj"
    using reassigned_fields [OF r] by simp_all
  have inv1: "pool_inv (s\<lparr>heap := (heap s)[k := obj]\<rparr>)"
    using assms(1) kn idx by (rule pool_inv_heap_update)
  then have inv': "pool_inv ?s'"
    using kn by (simp add: pool_inv_def)
  have "length (filter isAlive ((heap s)[k := obj])) = Suc (length (filter isAlive (heap s)))"
    using filter_update_count [OF kn, of isAlive obj] kf alive by simp
  moreover have "aliveCount ?s' = length (filter isAlive (heap ?s'))"
    by (rule aliveCount_heap [OF inv'])
  ultimately have cnt: "aliveCount ?s' = Suc (aliveCount s)"
    by (simp add: aliveCount_heap [OF assms(1)])
  show ?thesis
    using a inv' cnt by (intro exI [of _ k] exI [of _ ?s']) simp
qed

lemma AssignEnemyUnits_fill:
  assumes "pool_inv s" "length tws + aliveCount s = length (heap s)"
    and "\<forall>tw\<in>set tws. Dictionary_getItem (enemyModelDict s) (fst tw) \<noteq> None"
  shows "\<exists>rs s'. AssignEnemyUnits tws s = Some (Inr (rs, s')) \<and> length rs = length tws \<and>
    None \<notin> set rs \<and> pool_inv s' \<and> length (heap s') = length (heap s) \<and>
    aliveCount s' = length (heap s')"
  using assms
proof (induction tws arbitrary: s)
  case Nil
  then show ?case by simp
next
  case (Cons tw tws)
  have "aliveCount s < length (heap s)" using Cons.prems(2) by simp
  from free_slot_exists [OF Cons.prems(1) this]
  obtain j where j: "j < length (heap s)" "\<not> isAlive (heap s ! j)" by blast
  have m: "Dictionary_getItem (enemyModelDict s) (fst tw) \<noteq> None"
    using Cons.prems(3) by simp
  from AssignEnemyUnit_success [OF Cons.prems(1) j m, of "snd tw"]
  obtain a s1 where s1: "AssignEnemyUnit (fst tw) (snd tw) s = Some (Inr (Some a, s1))"
    "pool_inv s1" "length (heap s1) = length (heap s)" "aliveCount s1 = Suc (aliveCount s)"
    "enemyModelDict s1 = enemyModelDict s"
    by blast
  have "length tws + aliveCount s1 = length (heap s1)"
    using s1(3,4) Cons.prems(2) by simp
  moreover have "\<forall>tw\<in>set tws. Dictionary_getItem (enemyModelDict s1) (fst tw) \<noteq> None"
    using Cons.prems(3) s1(5) by simp
  ultimately obtain rs s' where r: "AssignEnemyUnits tws s1 = Some (Inr (rs, s'))"
    "length rs = length tws" "None \<notin> set rs" "pool_inv s'" "length (heap s') = length (heap s1)"
    "aliveCount s' = length (heap s')"
    using Cons.IH [OF s1(2)] by blast
  show ?case
    using s1 r by (intro exI [of _ "Some a # rs"] exI [of _ s']) simp
qed

subsection \<open>The example pools are states of the program\<close>

lemmas run_defs = GetEnemyUnit_def GetEnemyUnit_loop.simps pushNextIndex_def List_getItem_def
  AssignEnemyUnit_def AssignEnemyUnit_finish_def Let_def SetEngineState_def hasComponent_def
  removeComponent_def addComponent_def EnemyUnitObject_Initialize_def Dictionary_getItem_def
  ClearUnit_def EnemyUnitObject_new_def

lemma example_run:
  "Initialize new2 = Inr ((), fresh2)"
  "AssignEnemyUnits [(0, 1), (0, 1)] fresh2 = Some (Inr ([Some 1, Some 0], full2))"
  "ClearUnit 0 full2 = Inr ((), pool2)"
  "Initialize ((EnemyManager_new [''a'', ''b''])\<lparr>enemySizeMax := 1\<rparr>) =
     Inr ((), pool1 (EnemyUnitObject_new 0) 0)"
  by (simp_all add: new2_def fresh2_def full2_def pool2_def pool1_def run_defs
      Initialize_def Initialize_loop.simps AddEnemyUnit_def ClearUnits_def ClearUnits_loop.simps
      EnemyManager_new_def Dictionary_addItem_def modelPath_def)

subsection \<open>Every state the manager reaches satisfies \<open>pool_inv\<close>\<close>

text \<open>The constructor establishes \<open>pool_inv\<close> (\<open>pool_inv_new\<close>), and \<open>Initialize\<close>,
  \<open>ClearUnit\<close> and \<open>AssignEnemyUnit\<close> keep it, whether they return or throw. On these
  states \<open>AssignEnemyUnit\<close> always comes back. Along the way: \<open>AssignEnemyUnit\<close> keeps the
  counter \<open>enemySizeCur\<close> equal to the number of slots alive, and \<open>ClearUnit\<close> of a slot
  that is alive lowers that number and leaves the counter.\<close>

lemma pool_inv_scroll:
  "pool_inv s \<Longrightarrow> i = 0 \<or> i < length (enemyList s) \<Longrightarrow>
   pool_inv (s\<lparr>iterationHalt := h, iterationIndex := i\<rparr>)"
  by (auto simp: pool_inv_def)

lemma pool_inv_Initialize:
  assumes "pool_inv s"
  shows "pool_inv (resultState (Initialize s))"
proof -
  have "pool_inv (Initialize_loop s)"
    using Initialize_loop_props [OF assms(1)] by simp
  then have "pool_inv ((Initialize_loop s)\<lparr>heap := map cleared (heap (Initialize_loop s)),
      enemySizeCur := 0, enemySizeRemaining := 0\<rparr>)"
    by (auto simp: pool_inv_def comp_def)
  then show ?thesis
    using ClearUnits_valid [OF \<open>pool_inv (Initialize_loop s)\<close>]
    by (simp add: Initialize_def resultState_def)
qed

lemma pool_inv_ClearUnit:
  assumes "pool_inv s"
  shows "pool_inv (resultState (ClearUnit i s))"
proof (cases "0 \<le> i \<and> i < int (length (heap s))")
  case True
  then have "pool_inv (s\<lparr>heap := (heap s)[nat i := cleared (heap s ! nat i)]\<rparr>)"
    using assms(1) True by (intro pool_inv_heap_update) auto
  then show ?thesis
    using True assms ClearUnit_valid [of s i] by (simp add: resultState_def)
next
  case False
  then show ?thesis
    using assms ClearUnit_invalid [of s i] by (auto simp: resultState_def)
qed

lemma AssignEnemyUnit_total:
  assumes "pool_inv s"
  shows "\<exists>r. AssignEnemyUnit t w s = Some r \<and> pool_inv (resultState r)"
proof (cases "enemyList s = []")
  case True
  have "GetEnemyUnit s = Some (Inl (OutOfRangeError,
      s\<lparr>iterationHalt := iterationIndex s, iterationIndex := 0\<rparr>))"
    using True
    by (subst GetEnemyUnit_def, subst GetEnemyUnit_loop.simps)
       (simp add: pushNextIndex_def List_getItem_def)
  then show ?thesis
    using pool_inv_scroll [OF assms, of 0 "iterationIndex s"]
    by (simp add: AssignEnemyUnit_def resultState_def)
next
  case False
  then have c: "iterationIndex s < length (enemyList s)"
    using assms by (simp add: pool_inv_cursor)
  let ?js = "[Suc (iterationIndex s)..<length (enemyList s)] @ [0..<Suc (iterationIndex s)]"
  show ?thesis
  proof (cases "List.find (\<lambda>j. \<not> slotAlive s j) ?js")
    case None
    then have "GetEnemyUnit s = Some (Inr (None, s\<lparr>iterationHalt := iterationIndex s\<rparr>))"
      using GetEnemyUnit_scan [OF c] by simp
    moreover have "pool_inv (s\<lparr>iterationHalt := iterationIndex s\<rparr>)"
      using assms by (auto simp: pool_inv_def)
    ultimately show ?thesis
      by (simp add: AssignEnemyUnit_def resultState_def)
  next
    case (Some k)
    then have "k \<in> set ?js"
      by (auto simp: find_Some_iff simp del: upt_Suc set_upt set_append)
    then have kn: "k < length (heap s)"
      using c assms by (auto simp: pool_inv_length)
    let ?s1 = "s\<lparr>iterationHalt := iterationIndex s, iterationIndex := k\<rparr>"
    have g: "GetEnemyUnit s = Some (Inr (Some k, ?s1))"
      using GetEnemyUnit_scan [OF c] Some kn assms by (simp add: pool_inv_nth del: upt_Suc)
    have inv1: "pool_inv ?s1"
      using assms kn by (intro pool_inv_scroll) (simp_all add: pool_inv_length)
    have upd: "pool_inv (?s1\<lparr>heap := (heap ?s1)[k := obj]\<rparr>)"
      if "index obj = index (heap ?s1 ! k)" for obj
      using inv1 _ that by (rule pool_inv_heap_update) (simp add: kn)
    show ?thesis
    proof (cases "reassigned (enemyModelDict ?s1) t w (heap ?s1 ! k)")
      case None
      have "pool_inv (?s1\<lparr>heap := (heap ?s1)[k :=
              (if shape (heap ?s1 ! k) \<noteq> None
               then removeComponent (SetEngineState False (heap ?s1 ! k))
               else SetEngineState False (heap ?s1 ! k))]\<rparr>)"
        by (rule upd) (simp add: removeComponent_def SetEngineState_def)
      then show ?thesis
        using AssignEnemyUnit_found [OF g, of t w] None by (simp add: resultState_def)
    next
      case (Some obj)
      have "pool_inv (?s1\<lparr>heap := (heap ?s1)[k := obj]\<rparr>)"
        by (rule upd) (simp add: reassigned_fields(5) [OF Some])
      then have "pool_inv (?s1\<lparr>heap := (heap ?s1)[k := obj],
          enemySizeCur := Suc (enemySizeCur ?s1)\<rparr>)"
        by (auto simp: pool_inv_def)
      then show ?thesis
        using AssignEnemyUnit_found [OF g, of t w] Some by (simp add: resultState_def)
    qed
  qed
qed

lemma AssignEnemyUnit_keeps_count:
  assumes "pool_inv s" "enemySizeCur s = aliveCount s"
    and "AssignEnemyUnit t w s = Some (Inr (v, s'))"
  shows "enemySizeCur s' = aliveCount s'"
proof (cases v)
  case None
  from assms(3) have "\<exists>s1. GetEnemyUnit s = Some (Inr (None, s1)) \<and> s' = s1"
    unfolding None
    by (auto simp: AssignEnemyUnit_def Let_def AssignEnemyUnit_finish_def
        split: option.splits sum.splits prod.splits if_splits)
  then have g: "GetEnemyUnit s = Some (Inr (None, s'))" by blast
  obtain k where "s' = s\<lparr>iterationHalt := iterationIndex s, iterationIndex := k\<rparr>"
    using GetEnemyUnit_frame [OF g] by blast
  then have "enemySizeCur s' = enemySizeCur s" "aliveCount s' = aliveCount s"
    by (simp_all add: aliveCount_def)
  then show ?thesis using assms(2) by simp
next
  case (Some a)
  have an: "a < length (heap s)"
    using assms(1,3) unfolding Some by (rule AssignEnemyUnit_ref)
  from AssignEnemyUnit_returns [OF assms(3) [unfolded Some]] obtain s1 obj where
    g: "GetEnemyUnit s = Some (Inr (Some a, s1))" and
    r: "reassigned (enemyModelDict s1) t w (heap s1 ! a) = Some obj" and
    s': "s' = s1\<lparr>heap := (heap s1)[a := obj], enemySizeCur := Suc (enemySizeCur s1)\<rparr>"
    by blast
  obtain k where "s1 = s\<lparr>iterationHalt := iterationIndex s, iterationIndex := k\<rparr>"
    using GetEnemyUnit_frame [OF g] by blast
  then have f: "heap s1 = heap s" "enemySizeCur s1 = enemySizeCur s"
    by simp_all
  have free: "\<not> isAlive (heap s ! a)"
    using GetEnemyUnit_post(1) [OF g] f by simp
  have inv': "pool_inv s'"
    using AssignEnemyUnit_total [OF assms(1), of t w] assms(3) by (simp add: resultState_def)
  have "length (filter isAlive ((heap s)[a := obj])) = Suc (length (filter isAlive (heap s)))"
    using filter_update_count [OF an, of isAlive obj] free reassigned_fields(3) [OF r] by simp
  moreover have "aliveCount s' = length (filter isAlive (heap s'))"
    by (rule aliveCount_heap [OF inv'])
  ultimately have "aliveCount s' = Suc (aliveCount s)"
    by (simp add: aliveCount_heap [OF assms(1)] s' f)
  then show ?thesis
    using assms(2) by (simp add: s' f)
qed

lemma ClearUnit_leaves_count:
  assumes "pool_inv s" "0 \<le> i" "i < int (length (enemyList s))" "slotAlive s (nat i)"
    and "ClearUnit i s = Inr ((), s')"
  shows "enemySizeCur s' = enemySizeCur s" "Suc (aliveCount s') = aliveCount s"
proof -
  have n: "nat i < length (heap s)"
    using assms(1-3) by (simp add: pool_inv_length)
  have s': "s' = s\<lparr>heap := (heap s)[nat i := cleared (heap s ! nat i)]\<rparr>"
    using ClearUnit_valid [of s i] assms n by (simp add: pool_inv_length)
  show "enemySizeCur s' = enemySizeCur s"
    by (simp add: s')
  have inv': "pool_inv s'"
    using pool_inv_ClearUnit [OF assms(1), of i] by (simp add: assms(5) resultState_def)
  have "isAlive (heap s ! nat i)"
    using assms(1,4) n by (simp add: pool_inv_slotAlive)
  then have "Suc (length (filter isAlive ((heap s)[nat i := cleared (heap s ! nat i)]))) =
      length (filter isAlive (heap s))"
    using filter_update_count [OF n, of isAlive "cleared (heap s ! nat i)"]
    by (simp add: cleared_def)
  moreover have "aliveCount s' = length (filter isAlive (heap s'))"
    by (rule aliveCount_heap [OF inv'])
  ultimately show "Suc (aliveCount s') = aliveCount s"
    by (simp add: aliveCount_heap [OF assms(1)] s')
qed

section \<open>The claims\<close>

subsection \<open>C7: \<open>GetEnemyUnit\<close> on a pool without slots\<close>

text \<open>
  C7 says that \<open>GetEnemyUnit\<close>, called while the pool has no slot, returns NONE and never
  looks a slot up in the empty list. The source has no test of the capacity: the call sets
  the scroll position to 0 and looks up entry 0 of the empty list. At the manager as the
  constructor leaves it the call does not return NONE.
\<close>

theorem GetEnemyUnit_empty_pool_counterexample:
  "returnedValue (GetEnemyUnit (EnemyManager_new [])) \<noteq> Some None"
  by (subst GetEnemyUnit_def, subst GetEnemyUnit_loop.simps)
     (simp add: pushNextIndex_def List_getItem_def EnemyManager_new_def returnedValue_def)

text \<open>
  C7 as amended: when the pool has no slot, \<open>GetEnemyUnit\<close> fails. It records the halt
  position, resets the scroll position to 0, and the lookup of entry 0 in the empty list
  throws the out-of-range error.
\<close>

theorem GetEnemyUnit_empty_pool:
  "enemyList s = [] \<Longrightarrow>
   GetEnemyUnit s =
     Some (Inl (OutOfRangeError, s\<lparr>iterationHalt := iterationIndex s, iterationIndex := 0\<rparr>))"
  by (subst GetEnemyUnit_def, subst GetEnemyUnit_loop.simps)
     (simp add: pushNextIndex_def List_getItem_def)

theorem GetEnemyUnit_empty_pool_witness:
  "enemyList (EnemyManager_new []) = [] \<and>
   GetEnemyUnit (EnemyManager_new []) = Some (Inl (OutOfRangeError, EnemyManager_new []))"
  using GetEnemyUnit_empty_pool [of "EnemyManager_new []"]
  by (simp add: EnemyManager_new_def)

subsection \<open>C9: \<open>DamageUnit\<close>\<close>

text \<open>
  C9: \<open>DamageUnit(index, damage)\<close> forwards the damage to the slot registered under the
  index, and fails with the out-of-range error when the index names no slot that was
  created. For an index of the pool the only change is \<open>TakeDamage(damage)\<close> on the unit
  that is the entry \<open>index\<close> of the list and carries that index; for any other index the
  call throws and the state is as before.
\<close>

theorem DamageUnit_forwards:
  assumes "pool_inv s"
  shows "DamageUnit TakeDamage i damage s =
     (if 0 \<le> i \<and> i < int (length (enemyList s))
      then Inr ((), s\<lparr>heap := (heap s)[nat i := TakeDamage damage (heap s ! nat i)]\<rparr>)
      else Inl (OutOfRangeError, s)) \<and>
     (0 \<le> i \<and> i < int (length (enemyList s)) \<longrightarrow>
      enemyList s ! nat i = nat i \<and> index (heap s ! nat i) = nat i)"
proof -
  have "map index (heap s) ! nat i = nat i" if "0 \<le> i" "i < int (length (enemyList s))"
    using that assms by (simp add: pool_inv_def del: nth_map)
  then have "0 \<le> i \<and> i < int (length (enemyList s)) \<longrightarrow>
      enemyList s ! nat i = nat i \<and> index (heap s ! nat i) = nat i"
    using assms by (auto simp: pool_inv_length pool_inv_nth)
  moreover have "DamageUnit TakeDamage i damage s =
     (if 0 \<le> i \<and> i < int (length (enemyList s))
      then Inr ((), s\<lparr>heap := (heap s)[nat i := TakeDamage damage (heap s ! nat i)]\<rparr>)
      else Inl (OutOfRangeError, s))"
    using assms by (simp add: DamageUnit_def pool_inv_dict pool_inv_length)
  ultimately show ?thesis by blast
qed

theorem DamageUnit_forwards_witness:
  "pool_inv pool2 \<and>
   DamageUnit frailTakeDamage 1 5 pool2 =
     Inr ((), pool2\<lparr>heap := (heap pool2)[1 := (heap pool2 ! 1)\<lparr>isAlive := False\<rparr>]\<rparr>) \<and>
   DamageUnit frailTakeDamage 2 5 pool2 = Inl (OutOfRangeError, pool2)"
proof -
  have inv: "pool_inv pool2"
    by (simp add: pool_inv_def pool2_def upt_rec)
  have len: "length (enemyList pool2) = 2"
    by (simp add: pool2_def)
  show ?thesis
    using DamageUnit_forwards [OF inv, of frailTakeDamage 1 5]
      DamageUnit_forwards [OF inv, of frailTakeDamage 2 5] inv
    by (simp add: len frailTakeDamage_def)
qed

subsection \<open>C2: \<open>GetEnemyUnit\<close> and the specification's \<open>FindFree\<close>\<close>

text \<open>
  C2 says that \<open>GetEnemyUnit\<close> is exactly the specification's \<open>FindFree\<close>, which advances
  the cursor first and records \<open>halt\<close> as the advanced cursor. The source records
  \<open>iterationHalt\<close> before it advances. In \<open>pool2\<close> (cursor 0, slot 1 alive, slot 0 free)
  the advanced cursor is 1, the source records the halt position 0, passes the busy slot 1
  and returns slot 0; \<open>FindFree\<close> as worded meets the busy slot 1 with the cursor on
  \<open>halt\<close> and returns NONE.
\<close>

theorem GetEnemyUnit_not_FindFree_counterexample:
  "iterationIndex pool2 = 0 \<and>
   (iterationIndex pool2 + 1) mod length (enemyList pool2) = 1 \<and>
   GetEnemyUnit pool2 = Some (Inr (Some 0, pool2\<lparr>iterationHalt := 0\<rparr>)) \<and>
   FindFree (aliveFlags pool2) (iterationIndex pool2) = Some (None, 1)"
proof -
  have "GetEnemyUnit pool2 = Some (Inr (Some 0, pool2\<lparr>iterationHalt := 0\<rparr>))"
    by (simp add: GetEnemyUnit_def GetEnemyUnit_loop.simps pushNextIndex_def List_getItem_def
        pool2_def)
  moreover have "FindFree (aliveFlags pool2) (iterationIndex pool2) = Some (None, 1)"
    by (simp add: FindFree_def aliveFlags_def slotAlive_def pool2_def upt_rec
        FindFree_repeat.simps)
  moreover have "iterationIndex pool2 = 0"
    "(iterationIndex pool2 + 1) mod length (enemyList pool2) = 1"
    by (simp_all add: pool2_def)
  ultimately show ?thesis by blast
qed

text \<open>
  C2 as amended: \<open>GetEnemyUnit\<close> records \<open>halt\<close> as the cursor it is entered with, then
  advances the cursor by one modulo the capacity. It looks at the slots in the order
  cursor + 1, \<open>\<dots>\<close>, capacity - 1, 0, \<open>\<dots>\<close>, cursor, every slot exactly once and the slot
  at \<open>halt\<close> last, returns the first one that is not alive and leaves the cursor on it,
  and returns NONE with the cursor back on \<open>halt\<close> when there is none. The call always
  returns; with capacity 1 the order is the single slot 0.
\<close>

theorem GetEnemyUnit_scans_every_slot_once:
  assumes "iterationIndex s < length (enemyList s)"
  shows "GetEnemyUnit s =
     Some (Inr (case List.find (\<lambda>j. \<not> slotAlive s j)
                       ([Suc (iterationIndex s)..<length (enemyList s)] @ [0..<Suc (iterationIndex s)]) of
                  None \<Rightarrow> (None, s\<lparr>iterationHalt := iterationIndex s\<rparr>)
                | Some j \<Rightarrow> (Some (enemyList s ! j),
                    s\<lparr>iterationHalt := iterationIndex s, iterationIndex := j\<rparr>))) \<and>
     distinct ([Suc (iterationIndex s)..<length (enemyList s)] @ [0..<Suc (iterationIndex s)]) \<and>
     set ([Suc (iterationIndex s)..<length (enemyList s)] @ [0..<Suc (iterationIndex s)]) =
       {0..<length (enemyList s)}"
  using GetEnemyUnit_scan [OF assms] scan_positions(1) [OF assms] scan_positions(2) by blast

theorem GetEnemyUnit_scans_every_slot_once_witness:
  "iterationIndex pool2 < length (enemyList pool2) \<and>
   GetEnemyUnit pool2 = Some (Inr (Some 0, pool2\<lparr>iterationHalt := 0\<rparr>))"
proof -
  have c: "iterationIndex pool2 < length (enemyList pool2)"
    by (simp add: pool2_def)
  have f: "List.find (\<lambda>j. \<not> slotAlive pool2 j)
      ([Suc (iterationIndex pool2)..<length (enemyList pool2)] @ [0..<Suc (iterationIndex pool2)]) = Some 0"
    by (simp add: pool2_def slotAlive_def)
  have e: "pool2\<lparr>iterationHalt := iterationIndex pool2, iterationIndex := 0\<rparr> = pool2\<lparr>iterationHalt := 0\<rparr>"
    by (simp add: pool2_def)
  have n: "enemyList pool2 ! 0 = 0"
    by (simp add: pool2_def)
  have "GetEnemyUnit pool2 =
      Some (Inr (Some (enemyList pool2 ! 0),
                 pool2\<lparr>iterationHalt := iterationIndex pool2, iterationIndex := 0\<rparr>))"
    using GetEnemyUnit_scans_every_slot_once [OF c] by (simp add: f del: upt_Suc)
  then show ?thesis
    using c by (simp only: e n)
qed

subsection \<open>C4: the slot returned is free, and is returned again only as the last resort\<close>

text \<open>
  C4: a slot that \<open>GetEnemyUnit\<close> returns is not alive when it is returned; and of two
  successful calls in a row the second returns the slot of the first only if every other
  slot is alive at the second call. Between the two calls the units may change in any way
  (\<open>s3\<close> is any state with the list and the scroll position the first call left); no
  unit is listed twice.
\<close>

theorem GetEnemyUnit_free_no_repeat:
  assumes "GetEnemyUnit s1 = Some (Inr (Some a, s2))"
    and "distinct (enemyList s3)" "enemyList s3 = enemyList s2" "iterationIndex s3 = iterationIndex s2"
    and "GetEnemyUnit s3 = Some (Inr (Some b, s4))"
  shows "\<not> isAlive (heap s2 ! a) \<and> \<not> isAlive (heap s4 ! b) \<and>
    (b = a \<longrightarrow> (\<forall>j<length (enemyList s3). enemyList s3 ! j \<noteq> a \<longrightarrow> slotAlive s3 j))"
proof -
  let ?c = "iterationIndex s3" and ?n = "length (enemyList s3)"
  let ?js = "[Suc ?c..<?n] @ [0..<Suc ?c]"
  note p1 = GetEnemyUnit_post [OF assms(1)]
  note p2 = GetEnemyUnit_post [OF assms(5)]
  have c: "?c < ?n" and ca: "enemyList s3 ! ?c = a"
    using p1 assms(3,4) by simp_all
  have len: "length ?js = ?n" using c by simp
  have "\<forall>j<?n. enemyList s3 ! j \<noteq> a \<longrightarrow> slotAlive s3 j" if "b = a"
  proof (intro allI impI)
    fix j assume j: "j < ?n" "enemyList s3 ! j \<noteq> a"
    from GetEnemyUnit_scan [OF c] assms(5)
    obtain k where k: "List.find (\<lambda>j. \<not> slotAlive s3 j) ?js = Some k" "enemyList s3 ! k = b"
      by (auto split: option.splits)
    from k(1) obtain m where m: "m < length ?js" "k = ?js ! m" "\<forall>l<m. slotAlive s3 (?js ! l)"
      by (auto simp: find_Some_iff)
    have "k \<in> set ?js" using m(1,2) by (metis nth_mem)
    then have "k < ?n" using c by auto
    then have "k = ?c"
      using k(2) ca that c assms(2) nth_eq_iff_index_eq [of "enemyList s3" k "iterationIndex s3"] by simp
    then have "m = ?n - 1"
      using scan_positions_last [OF c m(1)] m(2) by simp
    have "j \<noteq> ?c" using j(2) ca by auto
    have "j \<in> set ?js" using j(1) c by auto
    then obtain l where l: "l < length ?js" "?js ! l = j"
      by (metis in_set_conv_nth)
    have "l \<noteq> m" using l(2) m(2) \<open>k = ?c\<close> \<open>j \<noteq> ?c\<close> by auto
    then have "l < m" using l(1) \<open>m = ?n - 1\<close> len by linarith
    then show "slotAlive s3 j" using m(3) l(2) by auto
  qed
  then show ?thesis using p1(1) p2(1) by blast
qed

theorem GetEnemyUnit_free_no_repeat_witness:
  "GetEnemyUnit pool2 = Some (Inr (Some 0, pool2\<lparr>iterationHalt := 0\<rparr>)) \<and>
   distinct (enemyList (pool2\<lparr>iterationHalt := 0\<rparr>)) \<and>
   GetEnemyUnit (pool2\<lparr>iterationHalt := 0\<rparr>) = Some (Inr (Some 0, pool2\<lparr>iterationHalt := 0\<rparr>)) \<and>
   \<not> isAlive (heap (pool2\<lparr>iterationHalt := 0\<rparr>) ! 0) \<and>
   slotAlive (pool2\<lparr>iterationHalt := 0\<rparr>) 1"
proof -
  let ?s = "pool2\<lparr>iterationHalt := 0\<rparr>"
  have g1: "GetEnemyUnit pool2 = Some (Inr (Some 0, ?s))"
    by (simp add: GetEnemyUnit_def GetEnemyUnit_loop.simps pushNextIndex_def List_getItem_def pool2_def)
  have g2: "GetEnemyUnit ?s = Some (Inr (Some 0, ?s))"
    by (simp add: GetEnemyUnit_def GetEnemyUnit_loop.simps pushNextIndex_def List_getItem_def pool2_def)
  have d: "distinct (enemyList ?s)"
    by (simp add: pool2_def)
  have l: "1 < length (enemyList ?s)" "enemyList ?s ! 1 \<noteq> 0"
    by (simp_all add: pool2_def)
  have "\<not> isAlive (heap ?s ! 0) \<and>
      (\<forall>j<length (enemyList ?s). enemyList ?s ! j \<noteq> 0 \<longrightarrow> slotAlive ?s j)"
    using GetEnemyUnit_free_no_repeat [OF g1 d _ _ g2] by simp
  then show ?thesis
    using g1 g2 d l by blast
qed

subsection \<open>C8: what \<open>ClearUnit\<close> changes\<close>

text \<open>
  C8: for every valid index, \<open>ClearUnit(index)\<close> sets the slot's \<open>isAlive\<close> to false and
  disables its presence in the world, and changes nothing else. The state after the call
  is the state before it with one unit of the store replaced: the unit that is entry
  \<open>index\<close> of the list and carries that index, with \<open>isAlive\<close> and \<open>engineState\<close> false
  and every other field (\<open>type\<close>, \<open>wave\<close>, the shape) as before. The other units, the
  scroll position, the halt position and the counters are those of the state before.
\<close>

theorem ClearUnit_frame:
  assumes "pool_inv s" "0 \<le> i" "i < int (length (enemyList s))"
  shows "ClearUnit i s =
      Inr ((), s\<lparr>heap := (heap s)[nat i := (heap s ! nat i)\<lparr>isAlive := False, engineState := False\<rparr>]\<rparr>) \<and>
    enemyList s ! nat i = nat i \<and> index (heap s ! nat i) = nat i"
proof -
  have "map index (heap s) ! nat i = nat i"
    using assms by (simp add: pool_inv_def del: nth_map)
  then have "index (heap s ! nat i) = nat i"
    using assms by (simp add: pool_inv_length)
  then show ?thesis
    using assms ClearUnit_valid [of s i]
    by (simp add: pool_inv_length pool_inv_nth cleared_def)
qed

theorem ClearUnit_frame_witness:
  "pool_inv pool2 \<and> (0::int) \<le> 1 \<and> 1 < int (length (enemyList pool2)) \<and>
   ClearUnit 1 pool2 =
     Inr ((), pool2\<lparr>heap := (heap pool2)[1 := (heap pool2 ! 1)\<lparr>isAlive := False, engineState := False\<rparr>]\<rparr>)"
proof -
  have inv: "pool_inv pool2"
    by (simp add: pool_inv_def pool2_def upt_rec)
  have len: "1 < int (length (enemyList pool2))"
    by (simp add: pool2_def)
  show ?thesis
    using ClearUnit_frame [OF inv _ len] inv len by simp
qed

subsection \<open>C10: \<open>AssignEnemyUnit\<close> on an exhausted pool\<close>

text \<open>
  C10: when every slot is alive, \<open>AssignEnemyUnit\<close> returns NONE and leaves every slot
  and the counter \<open>enemySizeCur\<close> as they were; it writes the scroll state only. The
  pool has a slot and the scroll position is a position of the list, as in every state
  after \<open>Initialize\<close>. The state returned is the state before with \<open>iterationHalt\<close> set
  to the scroll position; the scan has brought \<open>iterationIndex\<close> back to where it was.
\<close>

theorem AssignEnemyUnit_exhausted:
  assumes "iterationIndex s < length (enemyList s)"
    and "\<forall>j<length (enemyList s). slotAlive s j"
  shows "AssignEnemyUnit t w s = Some (Inr (None, s\<lparr>iterationHalt := iterationIndex s\<rparr>))"
proof -
  have "List.find (\<lambda>j. \<not> slotAlive s j)
          ([Suc (iterationIndex s)..<length (enemyList s)] @ [0..<Suc (iterationIndex s)]) = None"
    using assms by (auto simp: find_None_iff)
  then have "GetEnemyUnit s = Some (Inr (None, s\<lparr>iterationHalt := iterationIndex s\<rparr>))"
    using GetEnemyUnit_scan [OF assms(1)] by simp
  then show ?thesis
    by (simp add: AssignEnemyUnit_def)
qed

theorem AssignEnemyUnit_exhausted_witness:
  "iterationIndex full2 < length (enemyList full2) \<and>
   length (enemyList full2) = 2 \<and> slotAlive full2 0 \<and> slotAlive full2 1 \<and>
   AssignEnemyUnit 1 2 full2 = Some (Inr (None, full2\<lparr>iterationHalt := 0\<rparr>))"
proof -
  have c: "iterationIndex full2 < length (enemyList full2)"
    by (simp add: full2_def pool2_def)
  have n: "length (enemyList full2) = 2"
    by (simp add: full2_def pool2_def)
  have a0: "slotAlive full2 0" and a1: "slotAlive full2 1"
    by (simp_all add: full2_def pool2_def slotAlive_def)
  have a: "\<forall>j<length (enemyList full2). slotAlive full2 j"
    using a0 a1 by (simp add: n less_Suc_eq numeral_2_eq_2)
  have i: "iterationIndex full2 = 0"
    by (simp add: full2_def pool2_def)
  show ?thesis
    using AssignEnemyUnit_exhausted [OF c a, of 1 2] c n a0 a1 by (simp add: i)
qed

subsection \<open>C6: calling \<open>Initialize\<close> twice\<close>

text \<open>
  C6 says that a second \<open>Initialize\<close> creates a second full set of slots, so that the
  pool ends with twice \<open>enemySizeMax\<close> slots. The pre-warm loop runs while the list is
  shorter than \<open>enemySizeMax\<close>: at the second call it is not. A new manager has thirty
  slots after the first call and the same thirty after the second.
\<close>

theorem Initialize_twice_counterexample:
  "Initialize (EnemyManager_new []) = Inr ((), freshPool []) \<and>
   Initialize (freshPool []) = Inr ((), freshPool []) \<and>
   length (enemyList (freshPool [])) = enemySizeMax (EnemyManager_new []) \<and>
   length (enemyList (freshPool [])) \<noteq> 2 * enemySizeMax (EnemyManager_new [])"
  by (simp add: Initialize_new Initialize_freshPool)
     (simp add: freshPool_def EnemyManager_new_def)

text \<open>
  C6 as amended: calling \<open>Initialize\<close> twice does not allocate twice. The first call
  brings the pool to \<open>enemySizeMax\<close> slots (or leaves it, when it has more) and frees
  them all; the second call creates no slot and returns the very state the first one
  returned.
\<close>

theorem Initialize_twice:
  assumes "pool_inv s"
  shows "\<exists>s1. Initialize s = Inr ((), s1) \<and> Initialize s1 = Inr ((), s1) \<and>
    length (enemyList s1) = max (length (enemyList s)) (enemySizeMax s)"
proof -
  let ?n = "max (length (heap s)) (enemySizeMax s)"
  let ?s1 = "s\<lparr>heap := map cleared (heap s) @ map EnemyUnitObject_new [length (heap s)..<enemySizeMax s],
       enemyList := [0..<?n],
       enemyDict := map (\<lambda>a. (int a, a)) [0..<?n],
       enemySizeCur := 0, enemySizeRemaining := 0\<rparr>"
  have r1: "Initialize s = Inr ((), ?s1)"
    by (rule Initialize_result [OF assms])
  have len: "length (heap ?s1) = ?n" by auto
  have idx: "map index (heap ?s1) = [0..<?n]"
  proof -
    have "map index (map cleared (heap s)) = [0..<length (heap s)]"
      using assms by (simp add: pool_inv_def comp_def)
    moreover have "map index (map EnemyUnitObject_new [length (heap s)..<enemySizeMax s]) = [length (heap s)..<enemySizeMax s]"
      by (simp add: comp_def EnemyUnitObject_new_def)
    moreover have "[0..<length (heap s)] @ [length (heap s)..<enemySizeMax s] = [0..<?n]"
      by (metis le_add_diff_inverse max.absorb1 max_def nat_le_linear upt_add_eq_append upt_conv_Nil append_Nil2 zero_le)
    ultimately show ?thesis by simp
  qed
  have inv1: "pool_inv ?s1"
    using assms idx len by (auto simp: pool_inv_def simp del: map_append upt_Suc)
  have e: "length (heap s) + (enemySizeMax s - length (heap s)) = ?n"
    by simp
  have r2: "Initialize ?s1 = Inr ((), ?s1)"
    by (subst Initialize_result [OF inv1]) (simp add: e comp_def)
  show ?thesis
    using r1 r2 assms by (intro exI [of _ ?s1]) (simp add: pool_inv_length)
qed

theorem Initialize_twice_witness:
  "pool_inv (EnemyManager_new []) \<and>
   Initialize (EnemyManager_new []) = Inr ((), freshPool []) \<and>
   Initialize (freshPool []) = Inr ((), freshPool []) \<and>
   length (enemyList (freshPool [])) = 30"
proof -
  have inv: "pool_inv (EnemyManager_new [])"
    by (simp add: pool_inv_def EnemyManager_new_def)
  from Initialize_twice [OF inv]
  obtain s1 where s1: "Initialize (EnemyManager_new []) = Inr ((), s1)"
      "Initialize s1 = Inr ((), s1)"
      "length (enemyList s1) = max (length (enemyList (EnemyManager_new []))) (enemySizeMax (EnemyManager_new []))"
    by blast
  have "s1 = freshPool []"
    using s1(1) by (simp add: Initialize_new)
  then show ?thesis
    using s1 inv by (simp add: EnemyManager_new_def)
qed

subsection \<open>C1: \<open>enemySizeCur\<close> and the number of slots alive\<close>

text \<open>
  C1: after \<open>Initialize\<close>, through every sequence of \<open>AssignEnemyUnit\<close> and \<open>ClearUnit\<close>
  calls, \<open>enemySizeCur\<close> is the number of slots alive. The source declares the counter as
  the number of enemies in use, \<open>AssignEnemyUnit\<close> increments it and \<open>ClearUnits\<close> resets
  it, but \<open>ClearUnit\<close> takes a unit out of use and leaves the counter. On a new manager,
  \<open>Initialize()\<close>, \<open>AssignEnemyUnit(0, 1)\<close> and \<open>ClearUnit(1)\<close> end with no slot alive
  and the counter at 1.
\<close>

theorem enemySizeCur_after_ClearUnit:
  "Initialize (EnemyManager_new [''a'']) = Inr ((), freshPool [''a'']) \<and>
   AssignEnemyUnit 0 1 (freshPool [''a'']) = Some (Inr (Some 1, spawned)) \<and>
   aliveCount spawned = 1 \<and> enemySizeCur spawned = 1 \<and>
   ClearUnit 1 spawned = Inr ((), spawned_cleared) \<and>
   aliveCount spawned_cleared = 0 \<and> enemySizeCur spawned_cleared = 1"
proof -
  let ?p = "freshPool [''a'']"
  have c: "iterationIndex ?p < length (enemyList ?p)"
    by (simp add: freshPool_fields)
  have u: "[Suc 0..<30] = Suc 0 # [2..<30]"
    by (simp add: upt_conv_Cons)
  have f: "List.find (\<lambda>j. \<not> slotAlive ?p j)
      ([Suc (iterationIndex ?p)..<length (enemyList ?p)] @ [0..<Suc (iterationIndex ?p)]) = Some 1"
    by (simp add: freshPool_fields u slotAlive_def EnemyUnitObject_new_def del: upt_Suc)
  have g: "GetEnemyUnit ?p = Some (Inr (Some 1, ?p\<lparr>iterationIndex := 1\<rparr>))"
    unfolding GetEnemyUnit_scan [OF c] f
    by (simp add: freshPool_def EnemyManager_new_def)
  have a: "AssignEnemyUnit 0 1 ?p = Some (Inr (Some 1, spawned))"
    unfolding AssignEnemyUnit_def g
    by (simp add: Let_def AssignEnemyUnit_finish_def spawned_def EnemyUnitObject_new_def
          SetEngineState_def hasComponent_def addComponent_def EnemyUnitObject_Initialize_def
          freshPool_def EnemyManager_new_def Dictionary_getItem_def Dictionary_addItem_def
          modelPath_def)
  have mi: "map index (heap spawned) = [0..<length (heap spawned)]"
    by (auto simp: list_eq_iff_nth_eq nth_list_update spawned_def freshPool_fields
          EnemyUnitObject_new_def)
  have invs: "pool_inv spawned"
    unfolding pool_inv_def mi
    by (simp add: spawned_def freshPool_def EnemyManager_new_def)
  have cl: "ClearUnit 1 spawned = Inr ((), spawned_cleared)"
    using ClearUnit_valid [OF invs, of 1]
    by (simp add: spawned_cleared_def cleared_def)
       (simp add: spawned_def freshPool_def EnemyManager_new_def EnemyUnitObject_new_def)
  have invc: "pool_inv spawned_cleared"
    unfolding spawned_cleared_def
    using invs by (intro pool_inv_heap_update) (simp_all add: spawned_def freshPool_fields)
  have n1: "aliveCount spawned = 1"
    unfolding aliveCount_heap [OF invs]
    using filter_update_count [of 1 "map EnemyUnitObject_new [0..<30]" isAlive
        "\<lparr>index = 1, isAlive = True, type = 0, wave = 1, engineState = False,
          shape = Some ''models/enemy/a.glb'', removeComponentCalls = 0, addComponentCalls = 1\<rparr>"]
    by (simp add: spawned_def freshPool_fields fresh_units_free) (simp add: EnemyUnitObject_new_def)
  have n0: "aliveCount spawned_cleared = 0"
    unfolding aliveCount_heap [OF invc]
    using filter_update_count [of 1 "heap spawned" isAlive "(heap spawned ! 1)\<lparr>isAlive := False\<rparr>"]
      n1 [unfolded aliveCount_heap [OF invs]]
    by (simp add: spawned_cleared_def) (simp add: spawned_def freshPool_fields)
  have e: "enemySizeCur spawned = 1" "enemySizeCur spawned_cleared = 1"
    by (simp_all add: spawned_cleared_def spawned_def)
  show ?thesis
    using Initialize_new [of "[''a'']"] a cl n1 n0 e by simp
qed

subsection \<open>C3: a free pool of \<open>N\<close> slots serves \<open>N\<close> calls\<close>

text \<open>
  C3: from an initialised pool of \<open>N\<close> slots that are all free, \<open>N\<close> calls of
  \<open>AssignEnemyUnit\<close> in a row each return a slot, and the call after them returns NONE.
  The pool has at least one slot (the empty pool is the matter of C7), \<open>tws\<close> gives the
  type and wave of each of the \<open>N\<close> calls, and every type asked for has a model (a call
  for a type without one throws). The last call may ask for any type \<open>t\<close> and wave \<open>w\<close>.
\<close>

theorem AssignEnemyUnit_fills_pool:
  assumes "pool_inv s" "0 < length (enemyList s)"
    and "\<forall>j<length (enemyList s). \<not> slotAlive s j"
    and "length tws = length (enemyList s)"
    and "\<forall>tw\<in>set tws. Dictionary_getItem (enemyModelDict s) (fst tw) \<noteq> None"
  shows "\<exists>rs s'. AssignEnemyUnits tws s = Some (Inr (rs, s')) \<and>
    length rs = length (enemyList s) \<and> None \<notin> set rs \<and>
    returnedValue (AssignEnemyUnit t w s') = Some None"
proof -
  have "filter isAlive (heap s) = []"
    using assms(1,3) by (auto simp: filter_empty_conv in_set_conv_nth pool_inv_length pool_inv_slotAlive)
  then have "aliveCount s = 0"
    using assms(1) by (simp add: aliveCount_heap)
  then have "length tws + aliveCount s = length (heap s)"
    using assms(1,4) by (simp add: pool_inv_length)
  from AssignEnemyUnits_fill [OF assms(1) this assms(5)]
  obtain rs s' where r: "AssignEnemyUnits tws s = Some (Inr (rs, s'))"
    "length rs = length tws" "None \<notin> set rs" "pool_inv s'" "length (heap s') = length (heap s)"
    "aliveCount s' = length (heap s')"
    by blast
  have n: "0 < length (enemyList s')"
    using r(4,5) assms(1,2) by (simp add: pool_inv_length)
  have "AssignEnemyUnit t w s' = Some (Inr (None, s'\<lparr>iterationHalt := iterationIndex s'\<rparr>))"
    using pool_inv_cursor [OF r(4) n] all_alive [OF r(4,6)] by (rule AssignEnemyUnit_all_alive)
  then show ?thesis
    using r assms(4) by (intro exI [of _ rs] exI [of _ s']) (simp add: returnedValue_def)
qed

theorem AssignEnemyUnit_fills_pool_witness:
  "pool_inv fresh2 \<and> length (enemyList fresh2) = 2 \<and>
   \<not> slotAlive fresh2 0 \<and> \<not> slotAlive fresh2 1 \<and>
   (\<exists>rs s'. AssignEnemyUnits [(0, 1), (1, 2)] fresh2 = Some (Inr (rs, s')) \<and>
      length rs = 2 \<and> None \<notin> set rs \<and>
      returnedValue (AssignEnemyUnit 0 3 s') = Some None)"
proof -
  have inv: "pool_inv fresh2"
    by (simp add: pool_inv_def fresh2_def EnemyUnitObject_new_def upt_rec)
  have n: "length (enemyList fresh2) = 2"
    by (simp add: fresh2_def)
  have f0: "\<not> slotAlive fresh2 0" and f1: "\<not> slotAlive fresh2 1"
    by (simp_all add: slotAlive_def fresh2_def EnemyUnitObject_new_def)
  have free: "\<forall>j<length (enemyList fresh2). \<not> slotAlive fresh2 j"
    using f0 f1 by (simp add: n less_Suc_eq numeral_2_eq_2)
  have len: "length [(0::int, 1::int), (1, 2)] = length (enemyList fresh2)"
    by (simp add: n)
  have reg: "\<forall>tw\<in>set [(0::int, 1::int), (1, 2)].
      Dictionary_getItem (enemyModelDict fresh2) (fst tw) \<noteq> None"
    by (simp add: fresh2_def Dictionary_getItem_def)
  have pos: "0 < length (enemyList fresh2)"
    by (simp add: n)
  show ?thesis
    using AssignEnemyUnit_fills_pool [OF inv pos free len reg, of 0 3] inv n f0 f1
    by simp
qed

subsection \<open>C5: the shape is changed only when the type changes\<close>

text \<open>
  C5: a slot returned by \<open>AssignEnemyUnit(A, w1)\<close> and cleared is reused by
  \<open>AssignEnemyUnit(A, w2)\<close> without any \<open>removeComponent\<close> or \<open>addComponent\<close>; cleared
  again and reused by \<open>AssignEnemyUnit(B, w3)\<close> with another type \<open>B\<close>, its old shape is
  removed exactly once and the model of \<open>B\<close> is added exactly once. The calls are counted
  on the unit; no other unit is touched by the two reassignments.
\<close>

theorem AssignEnemyUnit_type_swap:
  assumes "pool_inv s0"
    and "AssignEnemyUnit A w1 s0 = Some (Inr (Some a, s1))"
    and "ClearUnit (int (index (heap s1 ! a))) s1 = Inr ((), s2)"
    and "AssignEnemyUnit A w2 s2 = Some (Inr (Some a, s3))"
    and "ClearUnit (int (index (heap s3 ! a))) s3 = Inr ((), s4)"
    and "AssignEnemyUnit B w3 s4 = Some (Inr (Some a, s5))"
    and "B \<noteq> A"
  shows "removeComponentCalls (heap s3 ! a) = removeComponentCalls (heap s2 ! a) \<and>
    addComponentCalls (heap s3 ! a) = addComponentCalls (heap s2 ! a) \<and>
    shape (heap s3 ! a) = shape (heap s2 ! a) \<and>
    removeComponentCalls (heap s5 ! a) = Suc (removeComponentCalls (heap s4 ! a)) \<and>
    addComponentCalls (heap s5 ! a) = Suc (addComponentCalls (heap s4 ! a)) \<and>
    shape (heap s5 ! a) = Dictionary_getItem (enemyModelDict s4) B \<and>
    shape (heap s5 ! a) \<noteq> None \<and>
    (\<forall>b. b \<noteq> a \<longrightarrow> heap s3 ! b = heap s2 ! b \<and> heap s5 ! b = heap s4 ! b)"
proof -
  have a0: "a < length (heap s0)"
    by (rule AssignEnemyUnit_ref [OF assms(1,2)])
  note u1 = AssignEnemyUnit_unit [OF assms(2) a0]
  note k2 = ClearUnit_keeps [OF assms(3)]
  have a2: "a < length (heap s2)" using a0 u1(2) k2(5) by simp
  note u3 = AssignEnemyUnit_unit [OF assms(4) a2]
  note k4 = ClearUnit_keeps [OF assms(5)]
  have a4: "a < length (heap s4)" using a2 u3(2) k4(5) by simp
  note u5 = AssignEnemyUnit_unit [OF assms(6) a4]
  have t2: "type (heap s2 ! a) = A" "shape (heap s2 ! a) \<noteq> None"
    using reassigned_fields [OF u1(1)] k2 by simp_all
  have t4: "type (heap s4 ! a) = A" "shape (heap s4 ! a) \<noteq> None"
    using reassigned_fields [OF u3(1)] k4 by simp_all
  have t4': "type (heap s4 ! a) \<noteq> B" using t4(1) assms(7) by simp
  show ?thesis
    using reassigned_same_type [OF u3(1) t2(2) t2(1)]
      reassigned_other_type [OF u5(1) t4(2) t4'] reassigned_fields(4) [OF u5(1)]
      u3(4) u5(4)
    by simp
qed

theorem AssignEnemyUnit_type_swap_witness:
  "pool_inv (pool1 (EnemyUnitObject_new 0) 0) \<and>
   AssignEnemyUnit 0 1 (pool1 (EnemyUnitObject_new 0) 0) =
     Some (Inr (Some 0, pool1 (unit0 True 0 1 ''models/enemy/a.glb'' 0 1) 1)) \<and>
   ClearUnit 0 (pool1 (unit0 True 0 1 ''models/enemy/a.glb'' 0 1) 1) =
     Inr ((), pool1 (unit0 False 0 1 ''models/enemy/a.glb'' 0 1) 1) \<and>
   AssignEnemyUnit 0 2 (pool1 (unit0 False 0 1 ''models/enemy/a.glb'' 0 1) 1) =
     Some (Inr (Some 0, pool1 (unit0 True 0 2 ''models/enemy/a.glb'' 0 1) 2)) \<and>
   ClearUnit 0 (pool1 (unit0 True 0 2 ''models/enemy/a.glb'' 0 1) 2) =
     Inr ((), pool1 (unit0 False 0 2 ''models/enemy/a.glb'' 0 1) 2) \<and>
   AssignEnemyUnit 1 3 (pool1 (unit0 False 0 2 ''models/enemy/a.glb'' 0 1) 2) =
     Some (Inr (Some 0, pool1 (unit0 True 1 3 ''models/enemy/b.glb'' 1 2) 3)) \<and>
   removeComponentCalls (heap (pool1 (unit0 True 0 2 ''models/enemy/a.glb'' 0 1) 2) ! 0) =
     removeComponentCalls (heap (pool1 (unit0 False 0 1 ''models/enemy/a.glb'' 0 1) 1) ! 0) \<and>
   addComponentCalls (heap (pool1 (unit0 True 0 2 ''models/enemy/a.glb'' 0 1) 2) ! 0) =
     addComponentCalls (heap (pool1 (unit0 False 0 1 ''models/enemy/a.glb'' 0 1) 1) ! 0) \<and>
   removeComponentCalls (heap (pool1 (unit0 True 1 3 ''models/enemy/b.glb'' 1 2) 3) ! 0) =
     Suc (removeComponentCalls (heap (pool1 (unit0 False 0 2 ''models/enemy/a.glb'' 0 1) 2) ! 0)) \<and>
   addComponentCalls (heap (pool1 (unit0 True 1 3 ''models/enemy/b.glb'' 1 2) 3) ! 0) =
     Suc (addComponentCalls (heap (pool1 (unit0 False 0 2 ''models/enemy/a.glb'' 0 1) 2) ! 0))"
proof -
  let ?s0 = "pool1 (EnemyUnitObject_new 0) 0"
  let ?s1 = "pool1 (unit0 True 0 1 ''models/enemy/a.glb'' 0 1) 1"
  let ?s2 = "pool1 (unit0 False 0 1 ''models/enemy/a.glb'' 0 1) 1"
  let ?s3 = "pool1 (unit0 True 0 2 ''models/enemy/a.glb'' 0 1) 2"
  let ?s4 = "pool1 (unit0 False 0 2 ''models/enemy/a.glb'' 0 1) 2"
  let ?s5 = "pool1 (unit0 True 1 3 ''models/enemy/b.glb'' 1 2) 3"
  have inv: "pool_inv ?s0"
    by (simp add: pool_inv_def pool1_def EnemyUnitObject_new_def)
  have r1: "AssignEnemyUnit 0 1 ?s0 = Some (Inr (Some 0, ?s1))"
    by (simp add: pool1_def unit0_def run_defs)
  have c2: "ClearUnit 0 ?s1 = Inr ((), ?s2)"
    by (simp add: pool1_def unit0_def run_defs)
  have r3: "AssignEnemyUnit 0 2 ?s2 = Some (Inr (Some 0, ?s3))"
    by (simp add: pool1_def unit0_def run_defs)
  have c4: "ClearUnit 0 ?s3 = Inr ((), ?s4)"
    by (simp add: pool1_def unit0_def run_defs)
  have r5: "AssignEnemyUnit 1 3 ?s4 = Some (Inr (Some 0, ?s5))"
    by (simp add: pool1_def unit0_def run_defs)
  have i1: "int (index (heap ?s1 ! 0)) = 0" and i3: "int (index (heap ?s3 ! 0)) = 0"
    by (simp_all add: pool1_def unit0_def)
  have c2': "ClearUnit (int (index (heap ?s1 ! 0))) ?s1 = Inr ((), ?s2)"
    using c2 by (simp only: i1)
  have c4': "ClearUnit (int (index (heap ?s3 ! 0))) ?s3 = Inr ((), ?s4)"
    using c4 by (simp only: i3)
  have "removeComponentCalls (heap ?s3 ! 0) = removeComponentCalls (heap ?s2 ! 0) \<and>
    addComponentCalls (heap ?s3 ! 0) = addComponentCalls (heap ?s2 ! 0) \<and>
    removeComponentCalls (heap ?s5 ! 0) = Suc (removeComponentCalls (heap ?s4 ! 0)) \<and>
    addComponentCalls (heap ?s5 ! 0) = Suc (addComponentCalls (heap ?s4 ! 0))"
    using AssignEnemyUnit_type_swap [OF inv r1 c2' r3 c4' r5] by simp
  then show ?thesis
    using inv r1 c2 r3 c4 r5 by blast
qed

end
